theory Spec2Isabelle
  imports Main
begin

section \<open>Text primitives of the Python runtime\<close>

text \<open>
  Python \<open>str\<close> values are modelled as \<open>string\<close>, one \<open>char\<close> per code point, over the
  code points U+0000..U+00FF. Every non-ASCII character that \<^verbatim>\<open>app.py\<close> itself writes
  (the accented letters of the Portuguese material names and of the header
  \<^verbatim>\<open>pre\<close>\<open>\<dots>\<close>\<^verbatim>\<open>o\<close>) lies in that range, and on it \<^verbatim>\<open>str.lower\<close>, \<^verbatim>\<open>str.isspace\<close>,
  \<^verbatim>\<open>str.isdigit\<close>, the class \<^verbatim>\<open>\w\<close> of \<^verbatim>\<open>re\<close> and the table of \<^verbatim>\<open>unidecode\<close> are the
  finite tables written out below.
\<close>

definition cp :: "char \<Rightarrow> nat" where
  "cp c = of_char c"

definition py_isspace :: "char \<Rightarrow> bool" where
  \<comment> \<open>\<^verbatim>\<open>str.isspace\<close>: TAB..CR, FS..US, SPACE, NEL (U+0085), NBSP (U+00A0)\<close>
  "py_isspace c = (let n = cp c in (9 \<le> n \<and> n \<le> 13) \<or> (28 \<le> n \<and> n \<le> 32) \<or> n = 133 \<or> n = 160)"

definition is_upper_ascii :: "char \<Rightarrow> bool" where
  "is_upper_ascii c = (65 \<le> cp c \<and> cp c \<le> 90)"

definition lower_char :: "char \<Rightarrow> char" where
  \<comment> \<open>\<^verbatim>\<open>A-Z\<close> and U+00C0..U+00DE (except the multiplication sign U+00D7) move up by 32\<close>
  "lower_char c =
     (let n = cp c in
      if (65 \<le> n \<and> n \<le> 90) \<or> (192 \<le> n \<and> n \<le> 222 \<and> n \<noteq> 215) then char_of (n + 32) else c)"

definition py_lower :: "string \<Rightarrow> string" where
  "py_lower s = map lower_char s"

definition is_word :: "char \<Rightarrow> bool" where
  \<comment> \<open>the class \<^verbatim>\<open>\w\<close> of a \<open>str\<close> pattern: alphanumeric (alphabetic or numeric) or underscore\<close>
  "is_word c =
     (let n = cp c in
      (48 \<le> n \<and> n \<le> 57) \<or> (65 \<le> n \<and> n \<le> 90) \<or> n = 95 \<or> (97 \<le> n \<and> n \<le> 122) \<or>
      n = 170 \<or> n = 178 \<or> n = 179 \<or> n = 181 \<or> n = 185 \<or> n = 186 \<or>
      (188 \<le> n \<and> n \<le> 190) \<or> (192 \<le> n \<and> n \<le> 214) \<or> (216 \<le> n \<and> n \<le> 246) \<or> 248 \<le> n)"

definition py_strip :: "string \<Rightarrow> string" where
  \<comment> \<open>\<^verbatim>\<open>s.strip()\<close>\<close>
  "py_strip s = dropWhile py_isspace (rev (dropWhile py_isspace (rev s)))"

fun split_ws :: "string \<Rightarrow> string \<Rightarrow> string list" where
  \<comment> \<open>\<^verbatim>\<open>s.split()\<close> with the word read so far in the first argument\<close>
  "split_ws w [] = (if w = [] then [] else [w])"
| "split_ws w (c # cs) =
     (if py_isspace c then (if w = [] then split_ws [] cs else w # split_ws [] cs)
      else split_ws (w @ [c]) cs)"

definition py_split :: "string \<Rightarrow> string list" where
  "py_split s = split_ws [] s"

fun py_join :: "string \<Rightarrow> string list \<Rightarrow> string" where
  \<comment> \<open>\<^verbatim>\<open>sep.join(ws)\<close>\<close>
  "py_join sep [] = []"
| "py_join sep [w] = w"
| "py_join sep (w # v # ws) = w @ sep @ py_join sep (v # ws)"

function py_replace :: "string \<Rightarrow> string \<Rightarrow> string \<Rightarrow> string" where
  \<comment> \<open>\<^verbatim>\<open>s.replace(old, new)\<close> for a non-empty \<open>old\<close> (the source only passes literals):
      leftmost occurrences, not overlapping\<close>
  "py_replace old new [] = []"
| "py_replace old new (c # cs) =
     (if old \<noteq> [] \<and> take (length old) (c # cs) = old
      then new @ py_replace old new (drop (length old) (c # cs))
      else c # py_replace old new cs)"
  by pat_completeness auto
termination
  by (relation "measure (\<lambda>(old, new, s). length s)") (auto simp: neq_Nil_conv)

fun py_contains :: "string \<Rightarrow> string \<Rightarrow> bool" where
  \<comment> \<open>\<^verbatim>\<open>sub in s\<close>\<close>
  "py_contains sub [] = (sub = [])"
| "py_contains sub (c # cs) = (take (length sub) (c # cs) = sub \<or> py_contains sub cs)"

subsection \<open>The transliteration table of unidecode\<close>

definition x000 :: "string list" where
  \<comment> \<open>the entries U+0080..U+00FF of the table \<^verbatim>\<open>unidecode/x000.py\<close> of the library
      (Unidecode 1.3): nothing for the C1 controls, then one entry per character\<close>
  "x000 =
   [[], [], [], [], [], [], [], [], [], [], [], [], [], [], [], [],
    [], [], [], [], [], [], [], [], [], [], [], [], [], [], [], [],
    '' '', ''!'', ''C/'', ''PS'', ''$?'', ''Y='', ''|'', ''SS'',
    [CHR 0x22], ''(c)'', ''a'', ''<<'', ''!'', [], ''(r)'', ''-'',
    ''deg'', ''+-'', ''2'', ''3'', [CHR 0x27], ''u'', ''P'', ''*'',
    '','', ''1'', ''o'', ''>>'', '' 1/4'', '' 1/2'', '' 3/4'', ''?'',
    ''A'', ''A'', ''A'', ''A'', ''A'', ''A'', ''AE'', ''C'',
    ''E'', ''E'', ''E'', ''E'', ''I'', ''I'', ''I'', ''I'',
    ''D'', ''N'', ''O'', ''O'', ''O'', ''O'', ''O'', ''x'',
    ''O'', ''U'', ''U'', ''U'', ''U'', ''Y'', ''Th'', ''ss'',
    ''a'', ''a'', ''a'', ''a'', ''a'', ''a'', ''ae'', ''c'',
    ''e'', ''e'', ''e'', ''e'', ''i'', ''i'', ''i'', ''i'',
    ''d'', ''n'', ''o'', ''o'', ''o'', ''o'', ''o'', ''/'',
    ''o'', ''u'', ''u'', ''u'', ''u'', ''y'', ''th'', ''y'']"

definition unidecode_char :: "char \<Rightarrow> string" where
  \<comment> \<open>ASCII is returned as it is; everything else goes through the table\<close>
  "unidecode_char c = (if cp c < 128 then [c] else x000 ! (cp c - 128))"

definition unidecode :: "string \<Rightarrow> string" where
  "unidecode s = concat (map unidecode_char s)"

section \<open>Name normalisation\<close>

fun re_sub_de :: "bool \<Rightarrow> string \<Rightarrow> string" where
  \<comment> \<open>\<^verbatim>\<open>re.sub(r"\bde\b", " ", t)\<close>; the flag says whether the character before the
      current position is a word character (\<open>False\<close> at the start of the text)\<close>
  "re_sub_de pw [] = []"
| "re_sub_de pw [c] = [c]"
| "re_sub_de pw (c # e # cs) =
     (if \<not> pw \<and> c = CHR ''d'' \<and> e = CHR ''e'' \<and> (case cs of [] \<Rightarrow> True | x # _ \<Rightarrow> \<not> is_word x)
      then CHR '' '' # re_sub_de True cs
      else c # re_sub_de (is_word c) (e # cs))"

definition norm_nome :: "string option \<Rightarrow> string" where
  "norm_nome txt =
     (case txt of
        None \<Rightarrow> []
      | Some x \<Rightarrow>
          (let t = unidecode (py_lower x);
               t = re_sub_de False t;
               t = py_replace ''-'' '' '' t;
               t = py_join '' '' (py_split t)
           in t))"

section \<open>Category\<close>

definition PREMIUM_NAMES :: "string list" where
  "PREMIUM_NAMES =
     [''Couro de Jacar'' @ [CHR 0xE9], ''Couro de Python'', ''Couro de Avestruz'',
      ''Couro de Pirarucu'', ''Couro de Elefante'']"

definition PREMIUM_KEYS :: "string set" where
  "PREMIUM_KEYS = set (map (\<lambda>n. norm_nome (Some n)) PREMIUM_NAMES)"

definition classificar_categoria :: "string list \<Rightarrow> string" where
  "classificar_categoria keys_norm =
     (if list_ex (\<lambda>k. k \<in> PREMIUM_KEYS) keys_norm then ''Couro Premium'' else ''Casual Urbano'')"

section \<open>Floating point: binary64 with exact arithmetic\<close>

text \<open>
  A finite double is kept as a pair \<open>(m, e)\<close> that stands for the number \<open>m * 2 ^ e\<close>, so
  that conversion to a double (\<^verbatim>\<open>float(s)\<close>, \<^verbatim>\<open>a / b\<close>) and \<^verbatim>\<open>round\<close> are computed
  exactly: 53 bits of precision, exponents down to \<open>-1074\<close> (subnormal numbers), rounding
  to nearest with ties to even, and overflow from \<open>2 ^ 1024\<close> on.
\<close>

datatype exn = ValueError | OverflowError | ZeroDivisionError | KeyError

datatype double = Finite int int | Infinite | NotANumber

definition rne :: "int \<Rightarrow> int \<Rightarrow> int" where
  \<comment> \<open>the quotient \<open>a / b\<close> (\<open>b > 0\<close>) rounded to the nearest integer, ties to the even one\<close>
  "rne a b =
     (let q = a div b; r = a mod b in
      if 2 * r < b then q else if b < 2 * r then q + 1 else if even q then q else q + 1)"

function bitlen :: "int \<Rightarrow> nat" where
  \<comment> \<open>the number of binary digits of a positive integer\<close>
  "bitlen n = (if n \<le> 0 then 0 else Suc (bitlen (n div 2)))"
  by pat_completeness auto
termination
  by (relation "measure nat") auto

declare bitlen.simps [simp del]

definition flog2 :: "int \<Rightarrow> int \<Rightarrow> int" where
  \<comment> \<open>\<open>\<lfloor>log\<^sub>2 (p / q)\<rfloor>\<close> for positive \<open>p\<close> and \<open>q\<close>\<close>
  "flog2 p q =
     (let d = int (bitlen p) - int (bitlen q) in
      if q * 2 ^ nat d \<le> p * 2 ^ nat (- d) then d else d - 1)"

definition to_double :: "int \<Rightarrow> int \<Rightarrow> (int \<times> int) option" where
  \<comment> \<open>the double nearest to \<open>p / q\<close> (\<open>p \<ge> 0\<close>, \<open>q > 0\<close>): the quotient is rounded to an
      integer multiple \<open>m\<close> of \<open>2 ^ e\<close>, where \<open>e\<close> leaves 53 bits and is at least \<open>-1074\<close>;
      \<open>None\<close> when the rounded value \<open>m * 2 ^ e\<close> reaches \<open>2 ^ 1024\<close>\<close>
  "to_double p q =
     (if p = 0 then Some (0, 0)
      else
        let e = max (flog2 p q - 52) (- 1074);
            m = rne (p * 2 ^ nat (- e)) (q * 2 ^ nat e)
        in if 2 ^ 1024 * 2 ^ nat (- e) \<le> m * 2 ^ nat e then None else Some (m, e))"

definition py_round :: "double \<Rightarrow> exn + int" where
  \<comment> \<open>\<^verbatim>\<open>round(x)\<close> of a float: exact, ties to even; infinities and NaN raise\<close>
  "py_round x =
     (case x of
        Finite m e \<Rightarrow> Inr (rne (m * 2 ^ nat e) (2 ^ nat (- e)))
      | Infinite \<Rightarrow> Inl OverflowError
      | NotANumber \<Rightarrow> Inl ValueError)"

definition py_truediv :: "int \<Rightarrow> int \<Rightarrow> exn + double" where
  \<comment> \<open>\<^verbatim>\<open>a / b\<close> on two ints: the correctly rounded quotient, or an exception\<close>
  "py_truediv a b =
     (if b = 0 then Inl ZeroDivisionError
      else case to_double \<bar>a\<bar> \<bar>b\<bar> of
             None \<Rightarrow> Inl OverflowError
           | Some (m, e) \<Rightarrow> Inr (Finite (if (a < 0) \<noteq> (b < 0) then - m else m) e))"

subsection \<open>Reading a float from text\<close>

definition is_digit :: "char \<Rightarrow> bool" where
  "is_digit c = (48 \<le> cp c \<and> cp c \<le> 57)"

definition py_isdigit :: "char \<Rightarrow> bool" where
  \<comment> \<open>\<^verbatim>\<open>str.isdigit\<close>: also the superscripts U+00B2, U+00B3 and U+00B9\<close>
  "py_isdigit c = (is_digit c \<or> cp c = 178 \<or> cp c = 179 \<or> cp c = 185)"

definition dec_val :: "string \<Rightarrow> int" where
  "dec_val ds = foldl (\<lambda>a c. 10 * a + int (cp c - 48)) 0 ds"

definition ascii_lower :: "char \<Rightarrow> char" where
  "ascii_lower c = (if is_upper_ascii c then char_of (cp c + 32) else c)"

definition c_isspace :: "char \<Rightarrow> bool" where
  \<comment> \<open>\<^verbatim>\<open>Py_ISSPACE\<close>: TAB..CR and SPACE\<close>
  "c_isspace c = ((9 \<le> cp c \<and> cp c \<le> 13) \<or> cp c = 32)"

fun to_ascii :: "string \<Rightarrow> string" where
  \<comment> \<open>what \<^verbatim>\<open>float\<close> does to a text that is not plain ASCII: a space character becomes a
      blank, and the first character that is neither a space nor a decimal digit becomes
      a question mark that ends the text\<close>
  "to_ascii [] = []"
| "to_ascii (c # cs) =
     (if cp c < 127 then c # to_ascii cs
      else if py_isspace c then CHR '' '' # to_ascii cs
      else ''?'')"

fun underscores_ok :: "char \<Rightarrow> string \<Rightarrow> bool" where
  \<comment> \<open>an underscore only between two digits; the first argument is the previous character\<close>
  "underscores_ok prev [] = (prev \<noteq> CHR ''_'')"
| "underscores_ok prev (c # cs) =
     (if c = CHR ''_'' then is_digit prev \<and> underscores_ok c cs
      else (if prev = CHR ''_'' then is_digit c else True) \<and> underscores_ok c cs)"

definition read_sign :: "string \<Rightarrow> bool \<times> string" where
  "read_sign s =
     (case s of
        c # cs \<Rightarrow> if c = CHR ''-'' then (True, cs) else if c = CHR ''+'' then (False, cs) else (False, s)
      | [] \<Rightarrow> (False, s))"

definition read_number :: "string \<Rightarrow> (int \<times> int) option" where
  \<comment> \<open>digits, an optional point and digits, an optional exponent; the whole text must be
      used. The result \<open>(d, x)\<close> stands for \<open>d * 10 ^ x\<close>.\<close>
  "read_number s =
     (let ip = takeWhile is_digit s; r1 = dropWhile is_digit s;
          fp = (case r1 of c # cs \<Rightarrow> if c = CHR ''.'' then takeWhile is_digit cs else [] | [] \<Rightarrow> []);
          r2 = (case r1 of c # cs \<Rightarrow> if c = CHR ''.'' then dropWhile is_digit cs else r1 | [] \<Rightarrow> [])
      in if ip = [] \<and> fp = [] then None
         else case r2 of
                [] \<Rightarrow> Some (dec_val (ip @ fp), - int (length fp))
              | c # cs \<Rightarrow>
                  if c = CHR ''e'' \<or> c = CHR ''E'' then
                    (let (neg, ds) = read_sign cs in
                     if ds \<noteq> [] \<and> list_all is_digit ds
                     then Some (dec_val (ip @ fp),
                                (if neg then - dec_val ds else dec_val ds) - int (length fp))
                     else None)
                  else None)"

definition py_float :: "string \<Rightarrow> exn + double" where
  \<comment> \<open>\<^verbatim>\<open>float(s)\<close> for a str\<close>
  "py_float s0 =
     (let s = (if list_all (\<lambda>c. cp c < 128) s0 then s0 else to_ascii s0);
          s = dropWhile c_isspace s;
          s = rev (dropWhile c_isspace (rev s))
      in if s = [] \<or> (CHR ''_'' \<in> set s \<and> \<not> underscores_ok (CHR 0x00) s) then Inl ValueError
         else
           let s = filter (\<lambda>c. c \<noteq> CHR ''_'') s;
               (neg, body) = read_sign s
           in case read_number body of
                Some (d, x) \<Rightarrow>
                  (case to_double (d * 10 ^ nat x) (10 ^ nat (- x)) of
                     None \<Rightarrow> Inr Infinite
                   | Some (m, e) \<Rightarrow> Inr (Finite (if neg then - m else m) e))
              | None \<Rightarrow>
                  if map ascii_lower body = ''inf'' \<or> map ascii_lower body = ''infinity''
                  then Inr Infinite
                  else if map ascii_lower body = ''nan'' then Inr NotANumber
                  else Inl ValueError)"

section \<open>Tolerant price parsing\<close>

definition py_int_digits :: "string \<Rightarrow> exn + int" where
  \<comment> \<open>\<^verbatim>\<open>int(digs)\<close> on a text of \<^verbatim>\<open>isdigit\<close> characters: a superscript digit is refused.
      Integers are unbounded; the cap on the number of digits that an interpreter may be
      configured with is not modelled.\<close>
  "py_int_digits digs = (if list_all is_digit digs then Inr (dec_val digs) else Inl ValueError)"

definition parse_preco :: "string option \<Rightarrow> exn + int option" where
  "parse_preco v =
     (case v of
        None \<Rightarrow> Inr None
      | Some x \<Rightarrow>
          (let s = py_strip x in
           if s = [] then Inr None
           else
             let s = py_replace ''.'' [] s;
                 s = py_replace '','' ''.'' s
             in case (case py_float s of Inl ex \<Rightarrow> Inl ex | Inr d \<Rightarrow> py_round d) of
                  Inr n \<Rightarrow> Inr (Some n)
                | Inl ex \<Rightarrow>
                    (let digs = filter py_isdigit s in
                     if digs \<noteq> [] then map_sum id Some (py_int_digits digs) else Inr None)))"

section \<open>The catalogue\<close>

text \<open>
  \<^verbatim>\<open>CATALOGO\<close> is a dict from the normalised name to \<^verbatim>\<open>{"preco": int, "display": str}\<close>.
  It is an association list with distinct keys in insertion order; assigning to a key
  that is present keeps its place, as a Python dict does.
\<close>

record entry =
  e_preco :: int
  e_display :: string

type_synonym catalogo = "(string \<times> entry) list"

fun dict_set :: "string \<Rightarrow> entry \<Rightarrow> catalogo \<Rightarrow> catalogo" where
  \<comment> \<open>\<^verbatim>\<open>CATALOGO[key] = v\<close>\<close>
  "dict_set k v [] = [(k, v)]"
| "dict_set k v ((k', v') # kvs) = (if k' = k then (k, v) # kvs else (k', v') # dict_set k v kvs)"

definition dict_get :: "catalogo \<Rightarrow> string \<Rightarrow> exn + entry" where
  \<comment> \<open>\<^verbatim>\<open>CATALOGO[k]\<close>\<close>
  "dict_get cat k = (case map_of cat k of None \<Rightarrow> Inl KeyError | Some v \<Rightarrow> Inr v)"

definition to_csv_url :: "string \<Rightarrow> string" where
  "to_csv_url url =
     (if url = [] then []
      else if py_contains ''output=csv'' url then url
      else if py_contains ''/pubhtml'' url then
        (let url = py_replace ''/pubhtml'' ''/pub'' url;
             sep = (if py_contains ''?'' url then ''&'' else ''?'')
         in url @ sep @ ''output=csv'')
      else url)"

text \<open>
  The download and the CSV reader are outside the repository. \<^verbatim>\<open>requests.get\<close> followed by
  \<^verbatim>\<open>raise_for_status\<close> either raises (transport error, status outside 2xx) or gives the
  body, which \<^verbatim>\<open>csv.DictReader\<close> turns into rows; a row answers \<^verbatim>\<open>row.get(name)\<close> with a
  text or with \<^verbatim>\<open>None\<close>.
\<close>

type_synonym row = "string \<Rightarrow> string option"

datatype fetched = FetchError string | Fetched "row list"

datatype log_entry =
    Warning_url_indefinida
  | Error_falha_ao_baixar string
  | Info_catalogo_carregado nat nat nat

record app_state =
  CATALOGO :: catalogo
  logged :: "log_entry list"

definition py_or :: "string option \<Rightarrow> string option \<Rightarrow> string option" where
  \<comment> \<open>\<^verbatim>\<open>a or b\<close>: \<^verbatim>\<open>None\<close> and the empty text are false\<close>
  "py_or a b = (if a = None \<or> a = Some [] then b else a)"

definition row_mat :: "row \<Rightarrow> string" where
  \<comment> \<open>\<^verbatim>\<open>str(row.get("materiais") or row.get("material") or row.get("nome") or "").strip()\<close>\<close>
  "row_mat r =
     py_strip (case py_or (py_or (py_or (r ''materiais'') (r ''material'')) (r ''nome'')) (Some [])
               of Some s \<Rightarrow> s | None \<Rightarrow> [])"

definition row_preco_raw :: "row \<Rightarrow> string" where
  \<comment> \<open>\<^verbatim>\<open>row.get("preco") or row.get("pre\<close>\<open>\<dots>\<close>\<^verbatim>\<open>o") or row.get("preco (r$)") or ""\<close>,
      the second header with c-cedilla (U+00E7)\<close>
  "row_preco_raw r =
     (case py_or (py_or (py_or (r ''preco'') (r (''pre'' @ [CHR 0xE7] @ ''o''))) (r ''preco (r$)''))
                 (Some [])
      of Some s \<Rightarrow> s | None \<Rightarrow> [])"

fun ler_linhas :: "row list \<Rightarrow> catalogo \<Rightarrow> nat \<Rightarrow> nat \<Rightarrow> (catalogo \<times> nat \<times> nat) \<times> exn option" where
  \<comment> \<open>the loop \<^verbatim>\<open>for row in reader\<close>, with the catalogue and the counters \<^verbatim>\<open>linhas\<close> and
      \<^verbatim>\<open>lidas\<close>; an exception leaves the catalogue as it is at that row\<close>
  "ler_linhas [] cat linhas lidas = ((cat, linhas, lidas), None)"
| "ler_linhas (r # rs) cat linhas lidas =
     (let linhas = linhas + 1;
          mat = row_mat r;
          preco_raw = row_preco_raw r
      in if mat = [] then ler_linhas rs cat linhas lidas
         else case parse_preco (Some preco_raw) of
                Inl ex \<Rightarrow> ((cat, linhas, lidas), Some ex)
              | Inr None \<Rightarrow> ler_linhas rs cat linhas lidas
              | Inr (Some preco) \<Rightarrow>
                  (let key = norm_nome (Some mat) in
                   if key = [] then ler_linhas rs cat linhas lidas
                   else ler_linhas rs (dict_set key \<lparr>e_preco = preco, e_display = mat\<rparr> cat)
                          linhas (lidas + 1)))"

definition carregar_catalogo ::
  "string \<Rightarrow> (string \<Rightarrow> fetched) \<Rightarrow> app_state \<Rightarrow> app_state \<times> exn option" where
  \<comment> \<open>the arguments are \<^verbatim>\<open>MATERIAIS_URL\<close>, the network and the state before the call; the
      second component of the result is the exception that leaves the function, if any\<close>
  "carregar_catalogo MATERIAIS_URL fetch st =
     (let st = st\<lparr>CATALOGO := []\<rparr>;
          url = to_csv_url MATERIAIS_URL
      in if url = [] then (st\<lparr>logged := logged st @ [Warning_url_indefinida]\<rparr>, None)
         else case fetch url of
                FetchError e \<Rightarrow> (st\<lparr>logged := logged st @ [Error_falha_ao_baixar e]\<rparr>, None)
              | Fetched rows \<Rightarrow>
                  (case ler_linhas rows (CATALOGO st) 0 0 of
                     ((cat, linhas, lidas), Some ex) \<Rightarrow> (st\<lparr>CATALOGO := cat\<rparr>, Some ex)
                   | ((cat, linhas, lidas), None) \<Rightarrow>
                       (st\<lparr>CATALOGO := cat,
                           logged := logged st @ [Info_catalogo_carregado lidas linhas (length cat)]\<rparr>,
                        None)))"

section \<open>Endpoints\<close>

datatype reload_response =
    Reload_json bool nat  \<comment> \<open>\<^verbatim>\<open>{"ok": ..., "materiais_catalogo": ...}\<close>, status 200\<close>
  | Reload_raised exn    \<comment> \<open>an exception left the handler: status 500\<close>

definition reload :: "string \<Rightarrow> (string \<Rightarrow> fetched) \<Rightarrow> app_state \<Rightarrow> app_state \<times> reload_response" where
  "reload MATERIAIS_URL fetch st =
     (case carregar_catalogo MATERIAIS_URL fetch st of
        (st', Some ex) \<Rightarrow> (st', Reload_raised ex)
      | (st', None) \<Rightarrow> (st', Reload_json True (length (CATALOGO st'))))"

fun split_on :: "char \<Rightarrow> string \<Rightarrow> string list" where
  \<comment> \<open>\<^verbatim>\<open>s.split(sep)\<close> for a separator of one character\<close>
  "split_on sep [] = [[]]"
| "split_on sep (c # cs) =
     (if c = sep then [] # split_on sep cs
      else case split_on sep cs of w # ws \<Rightarrow> (c # w) # ws | [] \<Rightarrow> [[c]])"

record resultado =
  materiais :: "string list"
  preco_final :: int
  categoria :: string
  soma_precos_unitarios :: int
  quantidade_materiais :: nat

datatype preco_response =
    Erro400 string
  | Erro404 string "string list"   \<comment> \<open>\<^verbatim>\<open>erro\<close> and \<^verbatim>\<open>materiais_desconhecidos\<close>\<close>
  | Ok200 resultado
  | Erro500 exn                    \<comment> \<open>an exception left the handler\<close>

fun soma_precos :: "catalogo \<Rightarrow> string list \<Rightarrow> exn + int" where
  \<comment> \<open>\<^verbatim>\<open>sum(CATALOGO[k]["preco"] for k in keys_norm)\<close>\<close>
  "soma_precos cat [] = Inr 0"
| "soma_precos cat (k # ks) =
     (case dict_get cat k of
        Inl ex \<Rightarrow> Inl ex
      | Inr v \<Rightarrow> (case soma_precos cat ks of Inl ex \<Rightarrow> Inl ex | Inr s \<Rightarrow> Inr (e_preco v + s)))"

definition split_itens :: "string \<Rightarrow> string list" where
  \<comment> \<open>\<^verbatim>\<open>[p.strip() for p in materiais_str.split(",") if p.strip()]\<close>\<close>
  "split_itens materiais_str =
     map py_strip (filter (\<lambda>p. py_strip p \<noteq> []) (split_on (CHR '','') materiais_str))"

definition desconhecidos_de :: "catalogo \<Rightarrow> string list \<Rightarrow> string list \<Rightarrow> string list" where
  \<comment> \<open>\<^verbatim>\<open>[itens[i] for i, k in enumerate(keys_norm) if k not in CATALOGO]\<close>\<close>
  "desconhecidos_de cat itens keys_norm =
     map (\<lambda>(i, k). itens ! i) (filter (\<lambda>(i, k). map_of cat k = None) (enumerate 0 keys_norm))"

definition preco :: "catalogo \<Rightarrow> string option \<Rightarrow> preco_response" where
  \<comment> \<open>the handler of \<^verbatim>\<open>GET /preco\<close>; the second argument is \<^verbatim>\<open>request.args.get("materiais")\<close>\<close>
  "preco cat arg =
     (let materiais_str = py_strip (case py_or arg (Some []) of Some s \<Rightarrow> s | None \<Rightarrow> []) in
      if materiais_str = [] then Erro400 (''Materiais n'' @ [CHR 0xE3] @ ''o informados'')
      else
        let itens = split_itens materiais_str in
        if itens = [] then Erro400 (''Nenhum material v'' @ [CHR 0xE1] @ ''lido informado'')
        else
          let keys_norm = map (\<lambda>p. norm_nome (Some p)) itens;
              desconhecidos = desconhecidos_de cat itens keys_norm
          in if desconhecidos \<noteq> []
             then Erro404 (''Alguns materiais n'' @ [CHR 0xE3] @ ''o existem no cat'' @ [CHR 0xE1] @ ''logo'')
                    desconhecidos
             else
               case soma_precos cat keys_norm of
                 Inl ex \<Rightarrow> Erro500 ex
               | Inr soma \<Rightarrow>
                   (let n = length keys_norm in
                    case (case py_truediv soma (int n) of Inl ex \<Rightarrow> Inl ex | Inr d \<Rightarrow> py_round d) of
                      Inl ex \<Rightarrow> Erro500 ex
                    | Inr p \<Rightarrow>
                        Ok200 \<lparr>materiais = itens, preco_final = p,
                               categoria = classificar_categoria keys_norm,
                               soma_precos_unitarios = soma, quantidade_materiais = n\<rparr>))"

section \<open>Notions used in the statements\<close>

definition query_itens :: "string option \<Rightarrow> string list" where
  \<comment> \<open>the list \<^verbatim>\<open>itens\<close> that \<^verbatim>\<open>preco\<close> builds from \<^verbatim>\<open>request.args.get("materiais")\<close>\<close>
  "query_itens arg = split_itens (py_strip (case arg of None \<Rightarrow> [] | Some s \<Rightarrow> s))"

definition msg_desconhecidos :: string where
  \<comment> \<open>the text of \<^verbatim>\<open>erro\<close> in the 404 response\<close>
  "msg_desconhecidos =
     ''Alguns materiais n'' @ [CHR 0xE3] @ ''o existem no cat'' @ [CHR 0xE1] @ ''logo''"

definition preco_unitario :: "catalogo \<Rightarrow> string \<Rightarrow> int" where
  \<comment> \<open>\<^verbatim>\<open>CATALOGO[norm_nome(p)]["preco"]\<close> for an item whose key is in the catalogue\<close>
  "preco_unitario cat p = (case map_of cat (norm_nome (Some p)) of None \<Rightarrow> 0 | Some v \<Rightarrow> e_preco v)"

definition estado_inicial :: app_state where
  \<comment> \<open>the state when the module is imported, before the first \<^verbatim>\<open>carregar_catalogo()\<close>\<close>
  "estado_inicial = \<lparr>CATALOGO = [], logged = []\<rparr>"

inductive alcancavel :: "app_state \<Rightarrow> bool" where
  \<comment> \<open>the states of the process: only \<^verbatim>\<open>carregar_catalogo\<close> writes \<^verbatim>\<open>CATALOGO\<close>\<close>
  inicial: "alcancavel estado_inicial"
| carregado: "alcancavel st \<Longrightarrow> alcancavel (fst (carregar_catalogo u fetch st))"

fun has_de :: "bool \<Rightarrow> string \<Rightarrow> bool" where
  \<comment> \<open>whether \<^verbatim>\<open>\bde\b\<close> matches somewhere in the text, read with the same flag as
      \<open>re_sub_de\<close>\<close>
  "has_de pw [] = False"
| "has_de pw [c] = False"
| "has_de pw (c # e # cs) =
     (if \<not> pw \<and> c = CHR ''d'' \<and> e = CHR ''e'' \<and> (case cs of [] \<Rightarrow> True | x # _ \<Rightarrow> \<not> is_word x)
      then True
      else has_de (is_word c) (e # cs))"

section \<open>Sample data\<close>

definition url_exemplo :: string where
  "url_exemplo = ''https://docs.example/d/e/x/pubhtml''"

definition rede_fora_do_ar :: "string \<Rightarrow> fetched" where
  \<comment> \<open>a network on which every download fails\<close>
  "rede_fora_do_ar url = FetchError ''timeout''"

definition estado_exemplo :: app_state where
  "estado_exemplo = \<lparr>CATALOGO = [(''jeans'', \<lparr>e_preco = 30, e_display = ''Jeans''\<rparr>)], logged = []\<rparr>"

definition linhas_exemplo :: "row list" where
  "linhas_exemplo =
     [map_of [(''materiais'', ''Jeans''), (''preco'', ''30'')],
      map_of [(''nome'', ''Couro de Jacar'' @ [CHR 0xE9]), (''pre'' @ [CHR 0xE7] @ ''o'', ''R$ 250'')],
      map_of [(''material'', ''de''), (''preco'', ''7'')],
      map_of [(''materiais'', ''Lona''), (''preco'', ''-5'')]]"

definition rede_exemplo :: "string \<Rightarrow> fetched" where
  "rede_exemplo url = Fetched linhas_exemplo"

definition catalogo_exemplo :: catalogo where
  "catalogo_exemplo =
     [(''jeans'', \<lparr>e_preco = 30, e_display = ''Jeans''\<rparr>),
      (''couro jacare'', \<lparr>e_preco = 250, e_display = ''Couro de Jacar'' @ [CHR 0xE9]\<rparr>),
      (''lona'', \<lparr>e_preco = - 5, e_display = ''Lona''\<rparr>)]"

definition pedido_exemplo :: "string option" where
  "pedido_exemplo = Some ('' Jeans , Veludo,, de ,Couro-de-Jacar'' @ [CHR 0xE9] @ '' '')"

definition catalogo_spec :: catalogo where
  "catalogo_spec =
     [(norm_nome (Some ''couro bovino''), \<lparr>e_preco = 100, e_display = ''Couro Bovino''\<rparr>),
      (norm_nome (Some ''couro de tilapia''), \<lparr>e_preco = 50, e_display = ''Couro de Tilapia''\<rparr>),
      (norm_nome (Some ''jeans''), \<lparr>e_preco = 30, e_display = ''Jeans''\<rparr>)]"

definition pedido_spec :: "string option" where
  "pedido_spec = Some (''Couro Bovino, Couro de Til'' @ [CHR 0xE1] @ ''pia, Jeans'')"

definition catalogo_grande :: catalogo where
  "catalogo_grande = [(''jeans'', \<lparr>e_preco = 9007199254740993, e_display = ''Jeans''\<rparr>)]"

definition rede_grande :: "string \<Rightarrow> fetched" where
  \<comment> \<open>a table whose only row has the price \<open>2 ^ 53 + 1\<close> after a currency sign\<close>
  "rede_grande url =
     Fetched [map_of [(''materiais'', ''Jeans''), (''preco'', ''R$ 9007199254740993'')]]"

definition texto_libra :: string where
  \<comment> \<open>the pound sign, U+00A3\<close>
  "texto_libra = [CHR 0xA3]"

section \<open>Reload when the download fails\<close>

lemma carregar_catalogo_falha:
  assumes "fetch (to_csv_url u) = FetchError e"
  shows "carregar_catalogo u fetch st =
           (st\<lparr>CATALOGO := [],
               logged := logged st @
                 [if to_csv_url u = [] then Warning_url_indefinida else Error_falha_ao_baixar e]\<rparr>,
            None)"
  using assms by (simp add: carregar_catalogo_def Let_def)

text \<open>
  C1, as the code has it: \<^verbatim>\<open>carregar_catalogo\<close> empties \<^verbatim>\<open>CATALOGO\<close> before it downloads,
  so when the download fails the catalogue is left empty, whatever it held before, and no
  exception leaves the function.
\<close>

theorem carregar_catalogo_falha_esvazia:
  assumes "fetch (to_csv_url u) = FetchError e"
  shows "CATALOGO (fst (carregar_catalogo u fetch st)) = [] \<and>
         snd (carregar_catalogo u fetch st) = None"
  using assms by (simp add: carregar_catalogo_def Let_def)

theorem carregar_catalogo_falha_esvazia_witness:
  "CATALOGO (fst (carregar_catalogo url_exemplo rede_fora_do_ar estado_exemplo)) = [] \<and>
   snd (carregar_catalogo url_exemplo rede_fora_do_ar estado_exemplo) = None"
  by (rule carregar_catalogo_falha_esvazia [where e = "''timeout''"])
     (simp add: rede_fora_do_ar_def)

text \<open>
  C1 as stated fails: the entry \<open>jeans\<close> loaded before the failed reload cannot be looked
  up after it.
\<close>

theorem carregar_catalogo_falha_counterexample:
  "map_of (CATALOGO estado_exemplo) ''jeans'' = Some \<lparr>e_preco = 30, e_display = ''Jeans''\<rparr> \<and>
   map_of (CATALOGO (fst (carregar_catalogo url_exemplo rede_fora_do_ar estado_exemplo))) ''jeans''
     = None"
  by (simp add: carregar_catalogo_falha [where e = "''timeout''"] rede_fora_do_ar_def
        estado_exemplo_def)

text \<open>
  C3, as the code has it: after a failed download \<^verbatim>\<open>POST /reload\<close> still answers
  \<^verbatim>\<open>{"ok": true, "materiais_catalogo": 0}\<close>; the failure only reaches the log.
\<close>

theorem reload_falha_responde_ok:
  assumes "fetch (to_csv_url u) = FetchError e"
  shows "snd (reload u fetch st) = Reload_json True 0 \<and>
         logged (fst (reload u fetch st)) =
           logged st @ [if to_csv_url u = [] then Warning_url_indefinida else Error_falha_ao_baixar e]"
  using assms by (simp add: reload_def carregar_catalogo_falha)

theorem reload_falha_responde_ok_witness:
  "snd (reload url_exemplo rede_fora_do_ar estado_exemplo) = Reload_json True 0 \<and>
   logged (fst (reload url_exemplo rede_fora_do_ar estado_exemplo)) =
     logged estado_exemplo @
       [if to_csv_url url_exemplo = [] then Warning_url_indefinida
        else Error_falha_ao_baixar ''timeout'']"
  by (rule reload_falha_responde_ok) (simp add: rede_fora_do_ar_def)

text \<open>C3 as stated fails: the response to a reload whose download failed says \<open>ok\<close>.\<close>

theorem reload_falha_counterexample:
  "rede_fora_do_ar (to_csv_url url_exemplo) = FetchError ''timeout'' \<and>
   snd (reload url_exemplo rede_fora_do_ar estado_exemplo) = Reload_json True 0"
  by (simp add: reload_def carregar_catalogo_falha [where e = "''timeout''"] rede_fora_do_ar_def)

section \<open>Price parsing\<close>

text \<open>
  C2: the three examples, evaluated. The fallback collects the digits of the text in
  which the points were already removed and the comma replaced, so the first example
  gives 149700 where the comment above \<^verbatim>\<open>parse_preco\<close> promises 1497; the other two are
  as stated.
\<close>

theorem parse_preco_exemplos:
  "parse_preco (Some ''R$ 1.497,00'') = Inr (Some 149700) \<and>
   parse_preco (Some []) = Inr None \<and>
   parse_preco (Some ''abc123'') = Inr (Some 123)"
  by code_simp

section \<open>Category\<close>

lemma premium_keys_list:
  "map (\<lambda>n. norm_nome (Some n)) PREMIUM_NAMES =
     [''couro jacare'', ''couro python'', ''couro avestruz'', ''couro pirarucu'', ''couro elefante'']"
  by code_simp

lemma PREMIUM_KEYS_eq:
  "PREMIUM_KEYS =
     {''couro jacare'', ''couro python'', ''couro avestruz'', ''couro pirarucu'', ''couro elefante''}"
  unfolding PREMIUM_KEYS_def premium_keys_list by simp

text \<open>
  C7: the classifier answers \<open>Couro Premium\<close> exactly when one of the keys is one of the
  five normalised premium names, whatever the other keys are, and \<open>Casual Urbano\<close>
  otherwise.
\<close>

theorem classificar_categoria_premium:
  "classificar_categoria keys_norm =
     (if set keys_norm \<inter>
           {''couro jacare'', ''couro python'', ''couro avestruz'', ''couro pirarucu'',
            ''couro elefante''} \<noteq> {}
      then ''Couro Premium'' else ''Casual Urbano'')"
proof -
  have "list_ex (\<lambda>k. k \<in> PREMIUM_KEYS) keys_norm \<longleftrightarrow> set keys_norm \<inter> PREMIUM_KEYS \<noteq> {}"
    by (auto simp: list_ex_iff)
  then show ?thesis
    by (simp only: classificar_categoria_def PREMIUM_KEYS_eq)
qed

theorem classificar_categoria_premium_witness:
  "classificar_categoria [''jeans'', ''couro jacare'', ''lona''] = ''Couro Premium'' \<and>
   classificar_categoria [''jeans'', ''lona''] = ''Casual Urbano''"
  by (simp add: classificar_categoria_premium)

section \<open>Name normalisation\<close>

text \<open>C9: the two spellings of the spec have the same key, \<open>couro jacare\<close>.\<close>

theorem norm_nome_couro_jacare:
  "norm_nome (Some (''Couro-de-Jacar'' @ [CHR 0xE9])) = norm_nome (Some ''couro jacare'')"
  by code_simp

section \<open>Unknown materials\<close>

lemma py_or_empty: "(case py_or arg (Some []) of Some s \<Rightarrow> s | None \<Rightarrow> []) = (case arg of None \<Rightarrow> [] | Some s \<Rightarrow> s)"
  by (cases arg) (auto simp: py_or_def)

lemma split_itens_Nil: "split_itens [] = []"
  by (simp add: split_itens_def py_strip_def)

lemma enumerate_index_lt: "(i, k) \<in> set (enumerate n xs) \<Longrightarrow> n \<le> i \<and> i < n + length xs"
  by (auto simp: enumerate_eq_zip dest!: set_zip_leftD)

lemma desconhecidos_de_filter:
  "desconhecidos_de cat itens (map f itens) = filter (\<lambda>p. map_of cat (f p) = None) itens"
proof (induction itens rule: rev_induct)
  case Nil
  show ?case by (simp add: desconhecidos_de_def)
next
  case (snoc x xs)
  have "map (\<lambda>(i, k). (xs @ [x]) ! i) (filter (\<lambda>(i, k). map_of cat k = None) (enumerate 0 (map f xs)))
      = map (\<lambda>(i, k). xs ! i) (filter (\<lambda>(i, k). map_of cat k = None) (enumerate 0 (map f xs)))"
    by (rule map_cong) (auto dest!: enumerate_index_lt simp: nth_append)
  with snoc show ?case
    by (simp add: desconhecidos_de_def enumerate_append_eq)
qed

lemma preco_404:
  assumes "p \<in> set (query_itens arg)" and "map_of cat (norm_nome (Some p)) = None"
  shows "preco cat arg =
           Erro404 msg_desconhecidos
             (filter (\<lambda>p. map_of cat (norm_nome (Some p)) = None) (query_itens arg))"
proof -
  let ?s = "py_strip (case arg of None \<Rightarrow> [] | Some s \<Rightarrow> s)"
  have itens: "split_itens ?s \<noteq> []"
    using assms(1) by (auto simp: query_itens_def)
  then have s: "?s \<noteq> []"
    using split_itens_Nil by auto
  have f: "filter (\<lambda>p. map_of cat (norm_nome (Some p)) = None) (split_itens ?s) \<noteq> []"
    using assms by (auto simp: filter_empty_conv query_itens_def)
  show ?thesis
    using s itens f
    by (simp add: preco_def py_or_empty Let_def desconhecidos_de_filter query_itens_def
          msg_desconhecidos_def)
qed

lemma dict_set_keys: "fst ` set (dict_set k v cat) = insert k (fst ` set cat)"
proof (induction cat)
  case Nil
  show ?case by simp
next
  case (Cons kv cat)
  obtain k' v' where kv: "kv = (k', v')" by (cases kv)
  show ?case
  proof (cases "k' = k")
    case True
    then show ?thesis by (simp add: kv)
  next
    case False
    then show ?thesis using Cons.IH by (simp add: kv insert_commute)
  qed
qed

lemma ler_linhas_sem_chave_vazia:
  "[] \<notin> fst ` set cat \<Longrightarrow> [] \<notin> fst ` set (fst (fst (ler_linhas rs cat l d)))"
proof (induction rs arbitrary: cat l d)
  case Nil
  then show ?case by simp
next
  case (Cons r rs)
  then show ?case
    by (auto simp: Let_def dict_set_keys split: sum.splits option.splits)
qed

lemma carregar_sem_chave_vazia:
  "[] \<notin> fst ` set (CATALOGO (fst (carregar_catalogo u fetch st)))"
proof -
  have "[] \<notin> fst ` set cat" if "ler_linhas rows [] 0 0 = ((cat, l, d), ex)" for rows cat l d ex
    using ler_linhas_sem_chave_vazia [of "[]" rows 0 0] that by simp
  then show ?thesis
    by (auto simp: carregar_catalogo_def Let_def split: fetched.splits prod.splits option.splits)
qed

lemma alcancavel_sem_chave_vazia: "alcancavel st \<Longrightarrow> [] \<notin> fst ` set (CATALOGO st)"
  by (induction rule: alcancavel.induct) (simp_all add: estado_inicial_def carregar_sem_chave_vazia)


text \<open>
  C6: when the key of at least one item is not in the catalogue, \<^verbatim>\<open>GET /preco\<close> answers 404
  with exactly the items (the trimmed pieces of the request, as written) whose key is
  missing, in the order of the request; no price is computed.
\<close>

theorem preco_materiais_desconhecidos:
  assumes "\<exists>p\<in>set (query_itens arg). map_of cat (norm_nome (Some p)) = None"
  shows "preco cat arg =
           Erro404 msg_desconhecidos
             (filter (\<lambda>p. map_of cat (norm_nome (Some p)) = None) (query_itens arg))"
  using assms preco_404 by blast

theorem preco_materiais_desconhecidos_witness:
  "preco catalogo_exemplo pedido_exemplo = Erro404 msg_desconhecidos [''Veludo'', ''de'']"
proof -
  have h: "\<exists>p\<in>set (query_itens pedido_exemplo). map_of catalogo_exemplo (norm_nome (Some p)) = None"
    by code_simp
  have f: "filter (\<lambda>p. map_of catalogo_exemplo (norm_nome (Some p)) = None)
             (query_itens pedido_exemplo) = [''Veludo'', ''de'']"
    by code_simp
  show ?thesis
    using preco_materiais_desconhecidos [OF h] unfolding f .
qed

section \<open>What a load stores\<close>

lemma carregar_exemplo:
  "carregar_catalogo url_exemplo rede_exemplo estado_inicial =
     (\<lparr>CATALOGO = catalogo_exemplo, logged = [Info_catalogo_carregado 3 4 3]\<rparr>, None)"
  by code_simp

lemma rne_nonneg: "0 \<le> a \<Longrightarrow> 0 < b \<Longrightarrow> 0 \<le> rne a b"
  by (simp add: rne_def Let_def pos_imp_zdiv_nonneg_iff)

lemma to_double_nonneg:
  assumes "0 \<le> p" "0 < q" "to_double p q = Some (m, e)"
  shows "0 \<le> m"
proof (cases "p = 0")
  case True
  with assms show ?thesis by (simp add: to_double_def)
next
  case False
  define e' where "e' = max (flog2 p q - 52) (- 1074)"
  have "0 \<le> rne (p * 2 ^ nat (- e')) (q * 2 ^ nat e')"
    using assms(1,2) by (intro rne_nonneg) simp_all
  with assms(3) False show ?thesis
    by (auto simp: to_double_def Let_def e'_def split: if_splits)
qed

lemma dec_val_aux: "0 \<le> a \<Longrightarrow> 0 \<le> foldl (\<lambda>a c. 10 * a + int (cp c - 48)) a ds"
  by (induction ds arbitrary: a) simp_all

lemma dec_val_nonneg: "0 \<le> dec_val ds"
  by (simp add: dec_val_def dec_val_aux)

lemma read_number_nonneg: "read_number s = Some (d, x) \<Longrightarrow> 0 \<le> d"
  by (auto simp: read_number_def Let_def dec_val_nonneg split: if_splits list.splits prod.splits)

lemma read_sign_no_minus: "CHR ''-'' \<notin> set s \<Longrightarrow> read_sign s = (neg, body) \<Longrightarrow> \<not> neg"
  by (auto simp: read_sign_def split: list.splits if_splits)

lemma set_py_strip: "set (py_strip s) \<subseteq> set s"
proof -
  have "set (py_strip s) \<subseteq> set (rev (dropWhile py_isspace (rev s)))"
    unfolding py_strip_def by (meson set_dropWhileD subsetI)
  also have "\<dots> \<subseteq> set s"
    using set_dropWhileD [of _ py_isspace "rev s"] by auto
  finally show ?thesis .
qed

lemma set_py_replace: "set (py_replace old new s) \<subseteq> set s \<union> set new"
proof (induction old new s rule: py_replace.induct)
  case (1 old new)
  show ?case by simp
next
  case (2 old new c cs)
  show ?case
  proof (cases "old \<noteq> [] \<and> take (length old) (c # cs) = old")
    case True
    have d: "set (drop (length old) (c # cs)) \<subseteq> set (c # cs)"
      by (rule set_drop_subset)
    have "py_replace old new (c # cs) = new @ py_replace old new (drop (length old) (c # cs))"
      using True by simp
    with 2(1) [OF True] d show ?thesis
      by (simp only: set_append) blast
  next
    case False
    then have "py_replace old new (c # cs) = c # py_replace old new cs"
      by auto
    with 2(2) [OF False] show ?thesis
      by auto
  qed
qed

lemma set_to_ascii: "set (to_ascii s) \<subseteq> set s \<union> {CHR '' '', CHR ''?''}"
  by (induction s) auto

lemma py_float_nonneg:
  assumes "CHR ''-'' \<notin> set s" "py_float s = Inr (Finite m e)"
  shows "0 \<le> m"
proof -
  define s1 where "s1 = (if list_all (\<lambda>c. cp c < 128) s then s else to_ascii s)"
  define s2 where "s2 = rev (dropWhile c_isspace (rev (dropWhile c_isspace s1)))"
  define s3 where "s3 = filter (\<lambda>c. c \<noteq> CHR ''_'') s2"
  have "CHR ''-'' \<notin> set s1"
    using assms(1) set_to_ascii [of s] by (auto simp: s1_def)
  then have "CHR ''-'' \<notin> set s2"
    unfolding s2_def by (metis set_dropWhileD set_rev)
  then have s3: "CHR ''-'' \<notin> set s3"
    by (simp add: s3_def)
  obtain neg body where rs: "read_sign s3 = (neg, body)"
    by (cases "read_sign s3")
  have neg: "\<not> neg"
    using read_sign_no_minus [OF s3 rs] .
  from assms(2) obtain d x where rn: "read_number body = Some (d, x)"
    and td: "to_double (d * 10 ^ nat x) (10 ^ nat (- x)) = Some (m, e)"
    using rs neg
    by (auto simp: py_float_def Let_def s1_def [symmetric] s2_def [symmetric] s3_def [symmetric]
          split: if_splits option.splits prod.splits)
  have "0 \<le> d" using read_number_nonneg [OF rn] .
  then show ?thesis
    using to_double_nonneg [OF _ _ td] by simp
qed

lemma py_round_nonneg: "py_round (Finite m e) = Inr n \<Longrightarrow> 0 \<le> m \<Longrightarrow> 0 \<le> n"
  by (auto simp: py_round_def intro!: rne_nonneg)

lemma parse_preco_nonneg:
  assumes "parse_preco (Some x) = Inr (Some p)" "CHR ''-'' \<notin> set x"
  shows "0 \<le> p"
proof -
  define s where "s = py_replace '','' ''.'' (py_replace ''.'' [] (py_strip x))"
  have "set s \<subseteq> set x \<union> {CHR ''.''}"
    unfolding s_def using set_py_replace [of "'',''" "''.''" "py_replace ''.'' [] (py_strip x)"]
      set_py_replace [of "''.''" "[]" "py_strip x"] set_py_strip [of x] by auto
  then have nm: "CHR ''-'' \<notin> set s"
    using assms(2) by auto
  have ne: "py_strip x \<noteq> []"
    using assms(1) by (auto simp: parse_preco_def)
  show ?thesis
  proof (cases "case py_float s of Inl ex \<Rightarrow> Inl ex | Inr d \<Rightarrow> py_round d")
    case (Inr n)
    then obtain d where d: "py_float s = Inr d" "py_round d = Inr n"
      by (auto split: sum.splits)
    then obtain m e where "d = Finite m e"
      by (cases d) (auto simp: py_round_def)
    with d have "0 \<le> n"
      using py_float_nonneg [OF nm] py_round_nonneg by blast
    moreover have "p = n"
      using assms(1) ne Inr by (simp add: parse_preco_def Let_def s_def [symmetric])
    ultimately show ?thesis by simp
  next
    case (Inl ex)
    with assms(1) ne have "p = dec_val (filter py_isdigit s)"
      by (auto simp: parse_preco_def Let_def s_def [symmetric] py_int_digits_def split: if_splits)
    then show ?thesis by (simp add: dec_val_nonneg)
  qed
qed

lemma set_dict_set: "set (dict_set k v cat) \<subseteq> insert (k, v) (set cat)"
  by (induction cat) (auto split: if_splits)

lemma ler_linhas_entradas:
  assumes "(k, v) \<in> set (fst (fst (ler_linhas rs cat l d)))"
  shows "(k, v) \<in> set cat \<or>
         (\<exists>r\<in>set rs. k = norm_nome (Some (row_mat r)) \<and> e_display v = row_mat r \<and>
            parse_preco (Some (row_preco_raw r)) = Inr (Some (e_preco v)))"
  using assms
proof (induction rs arbitrary: cat l d)
  case Nil
  then show ?case by simp
next
  case (Cons r rs)
  show ?case
  proof (cases "row_mat r = []")
    case True
    with Cons.prems have "(k, v) \<in> set (fst (fst (ler_linhas rs cat (l + 1) d)))"
      by (simp add: Let_def)
    from Cons.IH [OF this] show ?thesis by auto
  next
    case mat: False
    show ?thesis
    proof (cases "parse_preco (Some (row_preco_raw r))")
      case (Inl ex)
      with Cons.prems mat show ?thesis by (simp add: Let_def)
    next
      case (Inr po)
      show ?thesis
      proof (cases po)
        case None
        with Cons.prems mat Inr have "(k, v) \<in> set (fst (fst (ler_linhas rs cat (l + 1) d)))"
          by (simp add: Let_def)
        from Cons.IH [OF this] show ?thesis by auto
      next
        case (Some p)
        show ?thesis
        proof (cases "norm_nome (Some (row_mat r)) = []")
          case True
          with Cons.prems mat Inr Some
          have "(k, v) \<in> set (fst (fst (ler_linhas rs cat (l + 1) d)))"
            by (simp add: Let_def)
          from Cons.IH [OF this] show ?thesis by auto
        next
          case False
          let ?v = "\<lparr>e_preco = p, e_display = row_mat r\<rparr>"
          from Cons.prems mat Inr Some False
          have "(k, v) \<in> set (fst (fst (ler_linhas rs
                   (dict_set (norm_nome (Some (row_mat r))) ?v cat) (l + 1) (d + 1))))"
            by (simp add: Let_def)
          from Cons.IH [OF this] show ?thesis
          proof
            assume "(k, v) \<in> set (dict_set (norm_nome (Some (row_mat r))) ?v cat)"
            then have "(k, v) = (norm_nome (Some (row_mat r)), ?v) \<or> (k, v) \<in> set cat"
              using set_dict_set by fastforce
            then show ?thesis using Inr Some by auto
          next
            assume "\<exists>r\<in>set rs. k = norm_nome (Some (row_mat r)) \<and> e_display v = row_mat r \<and>
              parse_preco (Some (row_preco_raw r)) = Inr (Some (e_preco v))"
            then show ?thesis by auto
          qed
        qed
      qed
    qed
  qed
qed


text \<open>
  C4, as the code has it: every entry of the catalogue after a load was written by a row
  of the downloaded table; its \<^verbatim>\<open>preco\<close> is the integer that \<^verbatim>\<open>parse_preco\<close> returned for
  the price cell of that row, and it is not negative when that cell has no minus sign.
\<close>

theorem precos_armazenados:
  assumes "(k, v) \<in> set (CATALOGO (fst (carregar_catalogo u fetch st)))"
  shows "\<exists>rows r. fetch (to_csv_url u) = Fetched rows \<and> r \<in> set rows \<and>
           k = norm_nome (Some (row_mat r)) \<and> e_display v = row_mat r \<and>
           parse_preco (Some (row_preco_raw r)) = Inr (Some (e_preco v)) \<and>
           (CHR ''-'' \<notin> set (row_preco_raw r) \<longrightarrow> 0 \<le> e_preco v)"
proof -
  from assms obtain rows where rows: "fetch (to_csv_url u) = Fetched rows"
    and kv: "(k, v) \<in> set (fst (fst (ler_linhas rows [] 0 0)))"
    by (auto simp: carregar_catalogo_def Let_def split: if_splits fetched.splits prod.splits option.splits)
  from ler_linhas_entradas [OF kv] obtain r where r: "r \<in> set rows"
    "k = norm_nome (Some (row_mat r))" "e_display v = row_mat r"
    "parse_preco (Some (row_preco_raw r)) = Inr (Some (e_preco v))"
    by auto
  with parse_preco_nonneg [OF r(4)] rows show ?thesis by blast
qed


theorem precos_armazenados_witness:
  "(''jeans'', \<lparr>e_preco = 30, e_display = ''Jeans''\<rparr>)
     \<in> set (CATALOGO (fst (carregar_catalogo url_exemplo rede_exemplo estado_inicial))) \<and>
   (\<exists>rows r. rede_exemplo (to_csv_url url_exemplo) = Fetched rows \<and> r \<in> set rows \<and>
      ''jeans'' = norm_nome (Some (row_mat r)) \<and> ''Jeans'' = row_mat r \<and>
      parse_preco (Some (row_preco_raw r)) = Inr (Some 30) \<and>
      (CHR ''-'' \<notin> set (row_preco_raw r) \<longrightarrow> (0::int) \<le> 30))"
proof -
  have h: "(''jeans'', \<lparr>e_preco = 30, e_display = ''Jeans''\<rparr>)
     \<in> set (CATALOGO (fst (carregar_catalogo url_exemplo rede_exemplo estado_inicial)))"
    by (simp add: carregar_exemplo catalogo_exemplo_def)
  from precos_armazenados [OF h] h show ?thesis by simp
qed

text \<open>
  C4 as stated fails: the row \<open>Lona\<close> with the price cell \<open>-5\<close> is accepted and stored
  with the price \<open>-5\<close>.
\<close>

theorem precos_armazenados_counterexample:
  "row_preco_raw (linhas_exemplo ! 3) = ''-5'' \<and>
   rede_exemplo (to_csv_url url_exemplo) = Fetched linhas_exemplo \<and>
   map_of (CATALOGO (fst (carregar_catalogo url_exemplo rede_exemplo estado_inicial))) ''lona''
     = Some \<lparr>e_preco = - 5, e_display = ''Lona''\<rparr>"
proof -
  have "row_preco_raw (linhas_exemplo ! 3) = ''-5''"
    by code_simp
  then show ?thesis
    by (simp add: carregar_exemplo catalogo_exemplo_def rede_exemplo_def)
qed

section \<open>The empty key\<close>

lemma re_sub_de_no_d: "CHR ''d'' \<notin> set s \<Longrightarrow> re_sub_de pw s = s"
  by (induction pw s rule: re_sub_de.induct) auto

lemma py_replace_char:
  "py_replace [a] [b] s = map (\<lambda>c. if c = a then b else c) s"
  by (induction s) auto

lemma split_ws_spaces: "split_ws [] (replicate n (CHR '' '')) = []"
  by (induction n) (simp_all add: py_isspace_def cp_def)

lemma norm_nome_hifens: "norm_nome (Some (replicate n (CHR ''-''))) = []"
proof -
  have l: "py_lower (replicate n (CHR ''-'')) = replicate n (CHR ''-'')"
    by (simp add: py_lower_def lower_char_def cp_def Let_def)
  have u: "unidecode (replicate n (CHR ''-'')) = replicate n (CHR ''-'')"
    by (induction n) (simp_all add: unidecode_def unidecode_char_def cp_def)
  have r: "re_sub_de False (replicate n (CHR ''-'')) = replicate n (CHR ''-'')"
    by (rule re_sub_de_no_d) simp
  show ?thesis
    by (simp add: norm_nome_def l u r py_replace_char py_split_def split_ws_spaces)
qed

text \<open>
  C10: in every state of the process the catalogue has no entry under the empty key, the
  word \<open>de\<close> and every run of hyphens have the empty key, and a request with an item
  whose key is empty is answered 404 with that item among the unknown ones.
\<close>

theorem chave_vazia_desconhecida:
  assumes "alcancavel st" and "p \<in> set (query_itens arg)" and "norm_nome (Some p) = []"
  shows "map_of (CATALOGO st) [] = None \<and>
         (\<exists>ds. preco (CATALOGO st) arg = Erro404 msg_desconhecidos ds \<and> p \<in> set ds) \<and>
         norm_nome (Some ''de'') = [] \<and> norm_nome (Some (replicate n (CHR ''-''))) = []"
proof -
  have none: "map_of (CATALOGO st) [] = None"
    using alcancavel_sem_chave_vazia [OF assms(1)] by (simp add: map_of_eq_None_iff)
  then have "map_of (CATALOGO st) (norm_nome (Some p)) = None"
    by (simp add: assms(3))
  from preco_404 [OF assms(2) this] assms(2) this
  have "\<exists>ds. preco (CATALOGO st) arg = Erro404 msg_desconhecidos ds \<and> p \<in> set ds"
    by simp
  moreover have "norm_nome (Some ''de'') = []"
    by code_simp
  ultimately show ?thesis
    using none norm_nome_hifens by simp
qed

theorem chave_vazia_desconhecida_witness:
  "alcancavel (fst (carregar_catalogo url_exemplo rede_exemplo estado_inicial)) \<and>
   ''de'' \<in> set (query_itens pedido_exemplo) \<and>
   map_of (CATALOGO (fst (carregar_catalogo url_exemplo rede_exemplo estado_inicial))) [] = None \<and>
   (\<exists>ds. preco (CATALOGO (fst (carregar_catalogo url_exemplo rede_exemplo estado_inicial)))
            pedido_exemplo = Erro404 msg_desconhecidos ds \<and> ''de'' \<in> set ds) \<and>
   norm_nome (Some ''de'') = [] \<and> norm_nome (Some ''---'') = []"
proof -
  have a: "alcancavel (fst (carregar_catalogo url_exemplo rede_exemplo estado_inicial))"
    by (intro alcancavel.intros)
  have b: "''de'' \<in> set (query_itens pedido_exemplo)"
    by code_simp
  have c: "norm_nome (Some ''de'') = []"
    by code_simp
  from chave_vazia_desconhecida [OF a b c, of 3] a b show ?thesis
    by (simp add: numeral_3_eq_3)
qed

section \<open>Idempotence of the normaliser\<close>

lemma is_word_d: "is_word (CHR ''d'')" and is_word_e: "is_word (CHR ''e'')"
  and not_word_space: "\<not> is_word (CHR '' '')" and not_word_hyphen: "\<not> is_word (CHR ''-'')"
  by (simp_all add: is_word_def cp_def)

lemma space_not_word: "py_isspace c \<Longrightarrow> \<not> is_word c"
  by (auto simp: py_isspace_def is_word_def Let_def)

lemma re_sub_de_fixed: "\<not> has_de pw s \<Longrightarrow> re_sub_de pw s = s"
  by (induction pw s rule: has_de.induct) (auto split: if_splits)

lemma re_sub_de_True_Cons: "re_sub_de True (x # xs) = x # re_sub_de (is_word x) xs"
  by (cases xs) simp_all

lemma re_sub_de_nonword_Cons: "\<not> is_word x \<Longrightarrow> re_sub_de pw (x # xs) = x # re_sub_de False xs"
  using is_word_d by (cases xs) auto

lemma has_de_nonword_Cons: "\<not> is_word x \<Longrightarrow> has_de pw (x # xs) = has_de False xs"
  using is_word_d by (cases xs) auto

lemma has_de_True_Cons: "has_de True (x # xs) = has_de (is_word x) xs"
  by (cases xs) simp_all

lemma re_sub_de_Cons_not_Nil: "re_sub_de pw (x # xs) \<noteq> []"
  by (cases xs) simp_all

lemma has_de_re_sub_de: "\<not> has_de pw (re_sub_de pw s)"
proof (induction pw s rule: re_sub_de.induct)
  case (1 pw)
  show ?case by simp
next
  case (2 pw c)
  show ?case by simp
next
  case (3 pw c e cs)
  show ?case
  proof (cases "\<not> pw \<and> c = CHR ''d'' \<and> e = CHR ''e'' \<and> (case cs of [] \<Rightarrow> True | x # _ \<Rightarrow> \<not> is_word x)")
    case True
    then have out: "re_sub_de pw (c # e # cs) = CHR '' '' # re_sub_de True cs"
      by simp
    have "\<not> has_de False (re_sub_de True cs)"
    proof (cases cs)
      case Nil
      then show ?thesis by simp
    next
      case (Cons x xs)
      with True have nw: "\<not> is_word x" by simp
      have "\<not> has_de True (re_sub_de True cs)"
        using 3(1) [OF True] .
      then show ?thesis
        by (simp add: Cons re_sub_de_nonword_Cons [OF nw] has_de_nonword_Cons [OF nw])
    qed
    then show ?thesis
      unfolding out by (simp add: has_de_nonword_Cons [OF not_word_space])
  next
    case False
    then have out: "re_sub_de pw (c # e # cs) = c # re_sub_de (is_word c) (e # cs)"
      by auto
    have ih: "\<not> has_de (is_word c) (re_sub_de (is_word c) (e # cs))"
      using 3(2) [OF False] .
    show ?thesis
    proof (cases "\<not> pw \<and> c = CHR ''d''")
      case cd: True
      then have wc: "is_word c" by (simp add: is_word_d)
      have tl: "re_sub_de (is_word c) (e # cs) = e # re_sub_de (is_word e) cs"
        by (simp add: wc re_sub_de_True_Cons)
      show ?thesis
      proof (cases "e = CHR ''e''")
        case ee: True
        with False cd obtain x xs where cs: "cs = x # xs" and wx: "is_word x"
          by (cases cs) auto
        have "re_sub_de (is_word e) cs = x # re_sub_de (is_word x) xs"
          by (simp add: ee is_word_e cs re_sub_de_True_Cons)
        with ih show ?thesis
          unfolding out tl by (simp add: wx)
      next
        case False
        with ih show ?thesis
          unfolding out tl by simp
      qed
    next
      case ncd: False
      obtain y ys where "re_sub_de (is_word c) (e # cs) = y # ys"
        using re_sub_de_Cons_not_Nil [of "is_word c" e cs] by (auto simp: neq_Nil_conv)
      with ih ncd show ?thesis
        unfolding out by auto
    qed
  qed
qed

lemma has_de_hyphen:
  "has_de pw (map (\<lambda>c. if c = CHR ''-'' then CHR '' '' else c) s) = has_de pw s"
proof (induction pw s rule: has_de.induct)
  case (3 pw c e cs)
  have w: "is_word (if x = CHR ''-'' then CHR '' '' else x) = is_word x" for x
    using not_word_space not_word_hyphen by auto
  have nxt: "(case map (\<lambda>c. if c = CHR ''-'' then CHR '' '' else c) cs of [] \<Rightarrow> True | x # _ \<Rightarrow> \<not> is_word x)
       = (case cs of [] \<Rightarrow> True | x # _ \<Rightarrow> \<not> is_word x)"
    by (cases cs) (simp_all add: w)
  show ?case
  proof (cases "\<not> pw \<and> c = CHR ''d'' \<and> e = CHR ''e'' \<and> (case cs of [] \<Rightarrow> True | x # _ \<Rightarrow> \<not> is_word x)")
    case True
    then show ?thesis using nxt by simp
  next
    case False
    from 3 [OF False] False nxt show ?thesis
      by (auto simp: w)
  qed
qed simp_all

lemma has_de_split_at:
  assumes "\<not> is_word c"
  shows "has_de pw (u @ c # v) \<longleftrightarrow> has_de pw u \<or> has_de False v"
proof (induction pw u rule: has_de.induct)
  case (1 pw)
  show ?case by (simp add: has_de_nonword_Cons [OF assms])
next
  case (2 pw a)
  have "c \<noteq> CHR ''e''" using assms is_word_e by auto
  then show ?case
    by (simp add: has_de_nonword_Cons [OF assms])
next
  case (3 pw a e us)
  have nxt: "(case us @ c # v of [] \<Rightarrow> True | x # _ \<Rightarrow> \<not> is_word x)
       = (case us of [] \<Rightarrow> True | x # _ \<Rightarrow> \<not> is_word x)"
    using assms by (cases us) simp_all
  show ?case
  proof (cases "\<not> pw \<and> a = CHR ''d'' \<and> e = CHR ''e'' \<and> (case us of [] \<Rightarrow> True | x # _ \<Rightarrow> \<not> is_word x)")
    case True
    then show ?thesis using nxt by simp
  next
    case False
    from 3 [OF False] False nxt show ?thesis
      by auto
  qed
qed

lemma has_de_split_ws:
  "has_de False (acc @ s) \<longleftrightarrow> (\<exists>w\<in>set (split_ws acc s). has_de False w)"
proof (induction s arbitrary: acc)
  case Nil
  show ?case by simp
next
  case (Cons c cs)
  show ?case
  proof (cases "py_isspace c")
    case True
    then have nw: "\<not> is_word c" by (rule space_not_word)
    show ?thesis
      using Cons [of "[]"] True by (auto simp: has_de_split_at [OF nw])
  next
    case False
    then show ?thesis
      using Cons [of "acc @ [c]"] by simp
  qed
qed

lemma split_ws_no_space:
  "\<forall>c\<in>set w. \<not> py_isspace c \<Longrightarrow> split_ws acc (w @ rest) = split_ws (acc @ w) rest"
  by (induction w arbitrary: acc) simp_all

lemma split_ws_join:
  assumes "\<forall>w\<in>set ws. w \<noteq> [] \<and> (\<forall>c\<in>set w. \<not> py_isspace c)"
  shows "split_ws [] (py_join '' '' ws) = ws"
  using assms
proof (induction "'' ''" ws rule: py_join.induct)
  case 1
  show ?case by simp
next
  case (2 w)
  then show ?case
    using split_ws_no_space [of w "[]" "[]"] by simp
next
  case (3 w v ws)
  have sp: "py_isspace (CHR '' '')" by (simp add: py_isspace_def cp_def)
  from 3 have "split_ws [] (py_join '' '' (v # ws)) = v # ws" by simp
  moreover have "split_ws [] (w @ CHR '' '' # py_join '' '' (v # ws))
      = split_ws w (CHR '' '' # py_join '' '' (v # ws))"
    using split_ws_no_space [of w "[]"] 3(2) by simp
  ultimately show ?case
    using 3(2) sp by simp
qed

lemma split_ws_words:
  assumes "\<forall>c\<in>set acc. \<not> py_isspace c" and "w \<in> set (split_ws acc s)"
  shows "w \<noteq> [] \<and> (\<forall>c\<in>set w. \<not> py_isspace c) \<and> set w \<subseteq> set acc \<union> set s"
  using assms
proof (induction s arbitrary: acc)
  case Nil
  then show ?case by (auto split: if_splits)
next
  case (Cons c cs)
  show ?case
  proof (cases "py_isspace c")
    case True
    with Cons.prems have "w = acc \<and> acc \<noteq> [] \<or> w \<in> set (split_ws [] cs)"
      by (auto split: if_splits)
    then show ?thesis
    proof
      assume "w = acc \<and> acc \<noteq> []"
      with Cons.prems(1) show ?thesis by auto
    next
      assume "w \<in> set (split_ws [] cs)"
      from Cons.IH [OF _ this] show ?thesis by auto
    qed
  next
    case False
    with Cons.prems have "w \<in> set (split_ws (acc @ [c]) cs)" by simp
    from Cons.IH [OF _ this] False Cons.prems(1) show ?thesis by auto
  qed
qed

lemma set_py_join: "set (py_join sep ws) \<subseteq> \<Union> (set ` set ws) \<union> set sep"
  by (induction sep ws rule: py_join.induct) auto

lemma set_re_sub_de: "set (re_sub_de pw s) \<subseteq> insert (CHR '' '') (set s)"
  by (induction pw s rule: re_sub_de.induct) auto

lemma x000_ascii: "list_all (\<lambda>e. list_all (\<lambda>c. cp c < 128) e) x000"
  by code_simp

lemma unidecode_char_ascii: "c' \<in> set (unidecode_char c) \<Longrightarrow> cp c' < 128"
proof (cases "cp c < 128")
  case True
  assume "c' \<in> set (unidecode_char c)"
  with True show ?thesis by (simp add: unidecode_char_def)
next
  case False
  assume a: "c' \<in> set (unidecode_char c)"
  have len: "length x000 = 128"
    by code_simp
  have "cp c < 256"
    by (simp add: cp_def)
  then have "cp c - 128 < length x000"
    unfolding len by linarith
  then have "x000 ! (cp c - 128) \<in> set x000"
    by (rule nth_mem)
  with x000_ascii have "list_all (\<lambda>c. cp c < 128) (x000 ! (cp c - 128))"
    by (simp add: list_all_iff)
  with a False show ?thesis
    by (simp add: unidecode_char_def list_all_iff)
qed

lemma unidecode_ascii: "c \<in> set (unidecode s) \<Longrightarrow> cp c < 128"
  by (auto simp: unidecode_def dest: unidecode_char_ascii)

lemma unidecode_id: "\<forall>c\<in>set s. cp c < 128 \<Longrightarrow> unidecode s = s"
  by (induction s) (simp_all add: unidecode_def unidecode_char_def)

lemma py_lower_id: "\<forall>c\<in>set s. cp c < 128 \<and> \<not> is_upper_ascii c \<Longrightarrow> py_lower s = s"
  by (induction s) (auto simp: py_lower_def lower_char_def is_upper_ascii_def Let_def)

text \<open>
  C8, as the code has it: \<^verbatim>\<open>lower()\<close> runs before \<^verbatim>\<open>unidecode\<close>, so an upper-case letter that
  the transliteration writes stays in the key. When the key of \<open>x\<close> has no upper-case
  letter, normalising it again gives the same key.
\<close>

theorem norm_nome_idempotente:
  assumes "\<forall>c\<in>set (norm_nome (Some x)). \<not> is_upper_ascii c"
  shows "norm_nome (Some (norm_nome (Some x))) = norm_nome (Some x)"
proof -
  let ?hy = "\<lambda>c. if c = CHR ''-'' then CHR '' '' else c"
  define t where "t = unidecode (py_lower x)"
  define d where "d = re_sub_de False t"
  define h where "h = map ?hy d"
  define ws where "ws = split_ws [] h"
  define r where "r = py_join '' '' ws"
  have r: "norm_nome (Some x) = r"
    by (simp add: norm_nome_def py_replace_char py_split_def t_def d_def h_def ws_def r_def)
  have words: "w \<noteq> [] \<and> (\<forall>c\<in>set w. \<not> py_isspace c) \<and> set w \<subseteq> set h" if "w \<in> set ws" for w
    using split_ws_words [of "[]" w h] that by (simp add: ws_def)
  have split_r: "split_ws [] r = ws"
    unfolding r_def using words by (intro split_ws_join) blast
  have set_r: "set r \<subseteq> insert (CHR '' '') (set h)"
    using set_py_join [of "'' ''" ws] words by (auto simp: r_def)
  have set_h: "set h \<subseteq> insert (CHR '' '') (set t) - {CHR ''-''}"
    using set_re_sub_de [of False t] by (auto simp: h_def d_def)
  have ascii: "cp c < 128" if "c \<in> set r" for c
  proof -
    from that set_r set_h have "c = CHR '' '' \<or> c \<in> set t" by auto
    then show ?thesis
      by (auto simp: t_def cp_def dest: unidecode_ascii)
  qed
  have no_hyphen: "CHR ''-'' \<notin> set r"
    using set_r set_h by auto
  have "\<not> has_de False d"
    by (simp add: d_def has_de_re_sub_de)
  then have "\<not> has_de False h"
    by (simp add: h_def has_de_hyphen)
  then have "\<forall>w\<in>set ws. \<not> has_de False w"
    using has_de_split_ws [of "[]" h] by (simp add: ws_def)
  then have "\<not> has_de False r"
    using has_de_split_ws [of "[]" r] by (simp add: split_r)
  then have D: "re_sub_de False r = r"
    by (rule re_sub_de_fixed)
  have L: "py_lower r = r"
    using assms ascii by (intro py_lower_id) (simp add: r)
  have U: "unidecode r = r"
    using ascii by (intro unidecode_id) simp
  have H: "map ?hy r = r"
    using no_hyphen by (induction r) auto
  have "norm_nome (Some r) = py_join '' '' (split_ws [] r)"
    by (simp add: norm_nome_def py_replace_char py_split_def L U D H)
  then show ?thesis
    by (simp add: r split_r r_def [symmetric])
qed


theorem norm_nome_idempotente_witness:
  "list_all (\<lambda>c. \<not> is_upper_ascii c) (norm_nome (Some (''Couro-de-Jacar'' @ [CHR 0xE9]))) \<and>
   norm_nome (Some (''Couro-de-Jacar'' @ [CHR 0xE9])) = ''couro jacare'' \<and>
   norm_nome (Some (norm_nome (Some (''Couro-de-Jacar'' @ [CHR 0xE9])))) =
     norm_nome (Some (''Couro-de-Jacar'' @ [CHR 0xE9]))"
proof -
  have k: "norm_nome (Some (''Couro-de-Jacar'' @ [CHR 0xE9])) = ''couro jacare''"
    by code_simp
  have h: "\<forall>c\<in>set (norm_nome (Some (''Couro-de-Jacar'' @ [CHR 0xE9]))). \<not> is_upper_ascii c"
    unfolding k by code_simp
  from norm_nome_idempotente [OF h] h k show ?thesis by (simp add: list_all_iff)
qed

text \<open>
  C8 as stated fails: the pound sign is transliterated to \<open>PS\<close>, and normalising \<open>PS\<close>
  gives \<open>ps\<close>.
\<close>

theorem norm_nome_idempotente_counterexample:
  "norm_nome (Some texto_libra) = ''PS'' \<and>
   norm_nome (Some (norm_nome (Some texto_libra))) = ''ps''"
  by code_simp

section \<open>Rounding twice\<close>

text \<open>
  \<^verbatim>\<open>round(soma / n)\<close> rounds the exact quotient to a double and the double to an integer.
  The two roundings give the same integer as one rounding of the exact quotient as long
  as the grid of the doubles near the quotient is finer than \<open>1 / n\<close>.
\<close>

lemma rne_bounds:
  assumes "0 < b"
  shows "2 * x - b \<le> 2 * (b * rne x b)" and "2 * (b * rne x b) \<le> 2 * x + b"
proof -
  define q where "q = x div b"
  define r where "r = x mod b"
  have "x = b * q + r"
    by (simp add: q_def r_def)
  then have x: "2 * x = 2 * (b * q) + 2 * r"
    by simp
  have r: "0 \<le> r" "r < b"
    using assms by (simp_all add: r_def)
  have "rne x b = q \<and> 2 * r \<le> b \<or> rne x b = q + 1 \<and> b \<le> 2 * r"
    by (auto simp: rne_def Let_def q_def r_def)
  then have "b * rne x b = b * q \<and> 2 * r \<le> b \<or> b * rne x b = b * q + b \<and> b \<le> 2 * r"
    by (auto simp: algebra_simps)
  then show "2 * x - b \<le> 2 * (b * rne x b)" and "2 * (b * rne x b) \<le> 2 * x + b"
    using x r by auto
qed

lemma rne_decomp:
  assumes "0 < b" "0 \<le> t" "t < b"
  shows "rne (q * b + t) b =
           (if 2 * t < b then q else if b < 2 * t then q + 1 else if even q then q else q + 1)"
proof -
  have "(q * b + t) div b = q" using assms by simp
  moreover have "(q * b + t) mod b = t" using assms by simp
  ultimately show ?thesis by (simp add: rne_def Let_def)
qed

lemma rne_neg:
  assumes "0 < b"
  shows "rne (- a) b = - rne a b"
proof (cases "a mod b = 0")
  case True
  then have "(- a) mod b = 0" "(- a) div b = - (a div b)"
    using assms by (simp_all add: zmod_zminus1_eq_if zdiv_zminus1_eq_if)
  with True assms show ?thesis by (simp add: rne_def Let_def)
next
  case False
  then have m: "(- a) mod b = b - a mod b" and d: "(- a) div b = - (a div b) - 1"
    using assms by (simp_all add: zmod_zminus1_eq_if zdiv_zminus1_eq_if)
  have "0 \<le> a mod b" "a mod b < b" using assms by simp_all
  then show ?thesis
    unfolding rne_def Let_def m d by auto
qed

lemma rne_twice:
  assumes b: "0 < b" and bN: "b < 2 ^ k" and a: "0 \<le> a"
  shows "rne (rne (a * 2 ^ k) b) (2 ^ k) = rne a b"
proof -
  define N :: int where "N = 2 ^ k"
  define q where "q = a div b"
  define s where "s = a mod b"
  define t where "t = rne (s * N) b"
  have k: "0 < k" using b bN by (cases k) auto
  have N: "0 < N" "b < N" "even N" using bN k by (simp_all add: N_def)
  then obtain H where H: "N = 2 * H" by (auto elim: evenE)
  have s: "0 \<le> s" "s < b" using b by (simp_all add: s_def)
  have a_eq: "a = q * b + s" by (simp add: q_def s_def)
  have aN: "a * N = (q * N) * b + s * N" by (simp add: a_eq algebra_simps)
  have "(a * N) div b = q * N + (s * N) div b" "(a * N) mod b = (s * N) mod b"
    unfolding aN using b by simp_all
  moreover have "even (q * N + (s * N) div b) = even ((s * N) div b)"
    using N(3) by simp
  ultimately have m: "rne (a * N) b = q * N + t"
    by (simp add: rne_def Let_def t_def)
  have t_lo: "2 * (s * N) - b \<le> 2 * (b * t)" and t_hi: "2 * (b * t) \<le> 2 * (s * N) + b"
    using rne_bounds [OF b, of "s * N"] by (simp_all add: t_def)
  have t0: "0 \<le> t"
    unfolding t_def using s N b by (intro rne_nonneg) simp_all
  have "s * N \<le> (b - 1) * N"
    using s N(1) by (intro mult_right_mono) simp_all
  then have sN: "s * N \<le> b * N - N"
    by (simp add: algebra_simps)
  have "2 * (b * t) < 2 * (b * N)"
    using t_hi sN N(1,2) b by linarith
  then have "b * t < b * N" by simp
  then have tN: "t < N" using b by (simp only: mult_less_cancel_left_pos)
  have lt: "2 * t < N" if "2 * s < b"
  proof -
    have "(2 * s) * N \<le> (b - 1) * N"
      using that N(1) by (intro mult_right_mono) simp_all
    then have "2 * (s * N) \<le> b * N - N"
      by (simp add: algebra_simps)
    then have "2 * (b * t) < b * N"
      using t_hi N(1,2) b by linarith
    then have "b * (2 * t) < b * N" by (simp add: algebra_simps)
    then show ?thesis using b by (simp only: mult_less_cancel_left_pos)
  qed
  have gt: "N < 2 * t" if "b < 2 * s"
  proof -
    have "(b + 1) * N \<le> (2 * s) * N"
      using that N(1) by (intro mult_right_mono) simp_all
    then have "b * N + N \<le> 2 * (s * N)"
      by (simp add: algebra_simps)
    then have "b * N < 2 * (b * t)"
      using t_lo N(1,2) b by linarith
    then have "b * N < b * (2 * t)" by (simp add: algebra_simps)
    then show ?thesis using b by (simp only: mult_less_cancel_left_pos)
  qed
  have eq: "2 * t = N" if "2 * s = b"
  proof -
    have "s * N = H * b" using that H by (simp add: algebra_simps)
    then have "t = H" using b by (simp add: t_def rne_def Let_def)
    then show ?thesis by (simp add: H)
  qed
  have "rne (q * N + t) N =
          (if 2 * t < N then q else if N < 2 * t then q + 1 else if even q then q else q + 1)"
    using rne_decomp [OF N(1) t0 tN] .
  also have "\<dots> = (if 2 * s < b then q else if b < 2 * s then q + 1 else if even q then q else q + 1)"
    using lt gt eq by (cases "2 * s < b"; cases "b < 2 * s") auto
  also have "\<dots> = rne a b"
    by (simp add: rne_def Let_def q_def s_def)
  finally have "rne (rne (a * N) b) N = rne a b"
    by (simp only: m)
  then show ?thesis
    by (simp only: N_def)
qed

lemma bitlen_bounds:
  "0 < n \<Longrightarrow> n < 2 ^ bitlen n \<and> 2 ^ bitlen n \<le> 2 * n"
proof (induction n rule: bitlen.induct)
  case (1 n)
  show ?case
  proof (cases "n div 2 = 0")
    case True
    with 1(2) have "n = 1" by presburger
    then show ?thesis
      by (simp add: bitlen.simps [of 1] bitlen.simps [of 0])
  next
    case False
    with 1(2) have pos: "0 < n div 2" by presburger
    from 1(1) [OF _ pos] 1(2)
    have ih: "n div 2 < 2 ^ bitlen (n div 2)" "2 ^ bitlen (n div 2) \<le> 2 * (n div 2)"
      by simp_all
    have bl: "bitlen n = Suc (bitlen (n div 2))"
      using 1(2) by (simp add: bitlen.simps [of n])
    show ?thesis
      unfolding bl using ih by (simp; presburger)
  qed
qed

lemma flog2_lower:
  assumes "0 < p" "0 < q"
  shows "q * 2 ^ nat (flog2 p q) \<le> p * 2 ^ nat (- flog2 p q)"
proof -
  define bp where "bp = bitlen p"
  define bq where "bq = bitlen q"
  define d where "d = int bp - int bq"
  have p1: "p < 2 ^ bp" and p2: "2 ^ bp \<le> 2 * p"
    using bitlen_bounds [OF assms(1)] by (simp_all add: bp_def)
  have q1: "q < 2 ^ bq" and q2: "2 ^ bq \<le> 2 * q"
    using bitlen_bounds [OF assms(2)] by (simp_all add: bq_def)
  show ?thesis
  proof (cases "q * 2 ^ nat d \<le> p * 2 ^ nat (- d)")
    case True
    then have "flog2 p q = d"
      by (simp add: flog2_def Let_def d_def bp_def bq_def)
    with True show ?thesis by simp
  next
    case False
    then have f: "flog2 p q = d - 1"
      by (simp add: flog2_def Let_def d_def bp_def bq_def)
    show ?thesis
    proof (cases "1 \<le> d")
      case True
      define j where "j = bp - Suc bq"
      from True have j: "bp = Suc (bq + j)"
        unfolding d_def j_def by linarith
      have n1: "nat (d - 1) = j" "nat (1 - d) = 0"
        by (simp_all add: d_def j)
      have "q * 2 ^ j \<le> 2 ^ bq * 2 ^ j"
        using q1 by (intro mult_right_mono) simp_all
      also have "\<dots> = 2 ^ (bq + j)" by (simp add: power_add)
      also have "\<dots> \<le> p" using p2 by (simp add: j)
      finally show ?thesis by (simp add: f n1)
    next
      case False
      define j where "j = bq - bp"
      from False have j: "bq = bp + j"
        unfolding d_def j_def by linarith
      have n1: "nat (d - 1) = 0" "nat (1 - d) = Suc j"
        by (simp_all add: d_def j)
      have "q \<le> 2 ^ bq" using q1 by simp
      also have "\<dots> = 2 ^ bp * 2 ^ j" by (simp add: j power_add)
      also have "\<dots> \<le> (2 * p) * 2 ^ j"
        using p2 by (intro mult_right_mono) simp_all
      finally show ?thesis by (simp add: f n1)
    qed
  qed
qed

lemma rne_le_Suc: 
  assumes "0 \<le> x" "0 < b"
  shows "rne x b \<le> x + 1"
proof -
  have "x div b \<le> x div 1"
    using assms by (intro zdiv_mono2) simp_all
  then have "x div b \<le> x" by simp
  moreover have "rne x b \<le> x div b + 1"
    by (simp add: rne_def Let_def)
  ultimately show ?thesis by simp
qed

lemma rne_zero: "0 \<le> x \<Longrightarrow> 2 * x < b \<Longrightarrow> rne x b = 0"
  by (simp add: rne_def Let_def)

lemma to_double_round_pos:
  assumes p: "0 < p" "p < 2 ^ 52" and n: "0 < n"
  shows "\<exists>m e. to_double p n = Some (m, e) \<and> e < 0 \<and> 0 \<le> m \<and> rne m (2 ^ nat (- e)) = rne p n"
proof -
  define f where "f = flog2 p n"
  define e where "e = max (f - 52) (- 1074)"
  define k where "k = nat (- e)"
  define m where "m = rne (p * 2 ^ k) n"
  have low: "n * 2 ^ nat f \<le> p * 2 ^ nat (- f)"
    using flog2_lower [OF p(1) n] by (simp add: f_def)
  have f51: "f \<le> 51"
  proof (rule ccontr)
    assume "\<not> f \<le> 51"
    then have f52: "52 \<le> f" by simp
    define j where "j = nat f - 52"
    have j: "nat f = 52 + j" "nat (- f) = 0"
      using f52 by (simp_all add: j_def)
    have "(2::int) ^ 52 * 1 \<le> 2 ^ 52 * 2 ^ j"
      by (intro mult_left_mono) simp_all
    also have "\<dots> = 1 * 2 ^ nat f" by (simp add: j power_add)
    also have "\<dots> \<le> n * 2 ^ nat f"
      using n by (intro mult_right_mono) simp_all
    finally show False using low p(2) by (simp add: j)
  qed
  then have e: "e < 0" "nat e = 0" and k: "0 < k" "- e = int k"
    by (simp_all add: e_def k_def)
  have m0: "0 \<le> m"
    unfolding m_def using p n by (intro rne_nonneg) simp_all
  have pk: "p * 2 ^ k < 2 ^ 52 * 2 ^ k"
    using p(2) by (intro mult_strict_right_mono) simp_all
  have "m \<le> p * 2 ^ k + 1"
    unfolding m_def using p n by (intro rne_le_Suc) simp_all
  also have "\<dots> \<le> 2 ^ 52 * 2 ^ k" using pk by linarith
  also have "\<dots> < 2 ^ 1024 * (2::int) ^ k"
    by (intro mult_strict_right_mono) simp_all
  finally have no_ovf: "\<not> 2 ^ 1024 * 2 ^ k \<le> m" by simp
  have td: "to_double p n = Some (m, e)"
    using p(1) no_ovf
    by (simp add: to_double_def Let_def f_def [symmetric] e_def [symmetric] e k_def [symmetric]
          m_def [symmetric])
  have "rne m (2 ^ k) = rne p n"
  proof (cases "n < 2 ^ k")
    case True
    show ?thesis
      unfolding m_def using rne_twice [OF n True] p(1) by simp
  next
    case False
    have clamped: "e = - 1074"
    proof (rule ccontr)
      assume "e \<noteq> - 1074"
      then have ef: "e = f - 52" by (simp add: e_def)
      then have kf: "int k = 52 - f" using k(2) by simp
      have "n < 2 ^ k"
      proof (cases "0 \<le> f")
        case True
        then have nf: "nat (- f) = 0" and kk: "52 = k + nat f"
          using kf by simp_all
        have "n * 2 ^ nat f \<le> p"
          using low by (simp add: nf)
        also have "p < 2 ^ 52" by (rule p(2))
        also have "(2::int) ^ 52 = 2 ^ k * 2 ^ nat f"
          by (simp only: kk power_add)
        finally have "n * 2 ^ nat f < 2 ^ k * 2 ^ nat f" .
        then show ?thesis by simp
      next
        case False
        then have nf: "nat f = 0" and kk: "k = 52 + nat (- f)"
          using kf by simp_all
        have "n \<le> p * 2 ^ nat (- f)"
          using low by (simp add: nf)
        also have "\<dots> < 2 ^ 52 * 2 ^ nat (- f)"
          using p(2) by (intro mult_strict_right_mono) simp_all
        also have "\<dots> = 2 ^ k"
          by (simp add: kk power_add)
        finally show ?thesis .
      qed
      with False show False by simp
    qed
    then have k1074: "k = 1074" by (simp add: k_def)
    have big: "(2::int) ^ 54 \<le> 2 ^ k"
      unfolding k1074 by (intro power_increasing) simp_all
    have "2 * (n * m) \<le> 2 * (p * 2 ^ k) + n"
      using rne_bounds(2) [OF n, of "p * 2 ^ k"] by (simp add: m_def)
    moreover have "p * 2 ^ k \<le> p * n"
      using False p(1) by (intro mult_left_mono) simp_all
    ultimately have "n * (2 * m) \<le> n * (2 * p + 1)"
      by (simp add: algebra_simps)
    then have "2 * m \<le> 2 * p + 1"
      using n by (simp only: mult_le_cancel_left_pos)
    then have "2 * m < 2 ^ k" "2 * p < n"
      using p(2) big False by simp_all
    then show ?thesis
      using m0 p(1) by (simp add: rne_zero)
  qed
  with td e m0 k show ?thesis by simp
qed

lemma truediv_round:
  assumes "\<bar>a\<bar> < 2 ^ 52" and "0 < n"
  shows "(case py_truediv a n of Inl ex \<Rightarrow> Inl ex | Inr d \<Rightarrow> py_round d) = Inr (rne a n)"
proof (cases "a = 0")
  case True
  then show ?thesis
    using assms(2) by (simp add: py_truediv_def to_double_def py_round_def rne_def)
next
  case False
  then have p: "0 < \<bar>a\<bar>" by simp
  from to_double_round_pos [OF p assms] obtain m e where
    td: "to_double \<bar>a\<bar> n = Some (m, e)" and e: "e < 0"
    and r: "rne m (2 ^ nat (- e)) = rne \<bar>a\<bar> n"
    by blast
  have ne: "nat e = 0" using e by simp
  have an: "\<bar>n\<bar> = n" using assms(2) by simp
  show ?thesis
  proof (cases "a < 0")
    case True
    then have "rne a n = - rne \<bar>a\<bar> n"
      using rne_neg [OF assms(2), of "\<bar>a\<bar>"] by simp
    moreover have "rne (- m) (2 ^ nat (- e)) = - rne m (2 ^ nat (- e))"
      by (rule rne_neg) simp
    ultimately show ?thesis
      using True assms(2) td r by (simp add: py_truediv_def py_round_def an ne)
  next
    case False
    then have "\<bar>a\<bar> = a" by simp
    then show ?thesis
      using False assms(2) td r by (simp add: py_truediv_def py_round_def an ne)
  qed
qed

section \<open>The average price\<close>

lemma soma_precos_resolvidos:
  assumes "\<forall>p\<in>set itens. map_of cat (norm_nome (Some p)) \<noteq> None"
  shows "soma_precos cat (map (\<lambda>p. norm_nome (Some p)) itens)
           = Inr (sum_list (map (preco_unitario cat) itens))"
  using assms
  by (induction itens) (auto simp: dict_get_def preco_unitario_def)

lemma rne_nearest:
  assumes "0 < b"
  shows "2 * \<bar>x - b * rne x b\<bar> \<le> b"
proof -
  define y where "y = b * rne x b"
  have "2 * x - b \<le> 2 * y" "2 * y \<le> 2 * x + b"
    using rne_bounds [OF assms, of x] by (simp_all add: y_def)
  then have "2 * \<bar>x - y\<bar> \<le> b"
    by arith
  then show ?thesis
    by (simp only: y_def)
qed

text \<open>
  C5, as the code has it: when every item of the request has its key in the catalogue and
  the sum of the unit prices is below \<open>2 ^ 52\<close> in absolute value, \<^verbatim>\<open>GET /preco\<close> answers with
  the items as written, the sum over all items (an item that occurs twice counts twice),
  the number of items and the price \<open>rne soma n\<close>: the quotient of the sum by the number of
  items rounded to the nearest integer, ties to the even one. The price is at most one
  half away from the exact quotient. The division is a binary64 division, which is exact
  enough only while the sum fits in 52 bits.
\<close>

theorem preco_media:
  assumes "query_itens arg \<noteq> []"
    and "\<forall>p\<in>set (query_itens arg). map_of cat (norm_nome (Some p)) \<noteq> None"
    and "\<bar>sum_list (map (preco_unitario cat) (query_itens arg))\<bar> < 2 ^ 52"
  shows "preco cat arg =
           Ok200 \<lparr>materiais = query_itens arg,
                  preco_final = rne (sum_list (map (preco_unitario cat) (query_itens arg)))
                                    (int (length (query_itens arg))),
                  categoria = classificar_categoria (map (\<lambda>p. norm_nome (Some p)) (query_itens arg)),
                  soma_precos_unitarios = sum_list (map (preco_unitario cat) (query_itens arg)),
                  quantidade_materiais = length (query_itens arg)\<rparr> \<and>
         2 * \<bar>sum_list (map (preco_unitario cat) (query_itens arg))
                - int (length (query_itens arg))
                  * rne (sum_list (map (preco_unitario cat) (query_itens arg)))
                        (int (length (query_itens arg)))\<bar>
           \<le> int (length (query_itens arg))"
proof -
  let ?s = "py_strip (case arg of None \<Rightarrow> [] | Some s \<Rightarrow> s)"
  define itens where "itens = query_itens arg"
  define soma where "soma = sum_list (map (preco_unitario cat) itens)"
  have it: "split_itens ?s = itens"
    by (simp add: itens_def query_itens_def)
  have ne: "itens \<noteq> []" using assms(1) by (simp add: itens_def)
  then have s: "?s \<noteq> []"
    using split_itens_Nil it by auto
  have n: "0 < int (length itens)" using ne by simp
  have f: "filter (\<lambda>p. map_of cat (norm_nome (Some p)) = None) itens = []"
    using assms(2) by (simp add: filter_empty_conv itens_def)
  have sp: "soma_precos cat (map (\<lambda>p. norm_nome (Some p)) itens) = Inr soma"
    unfolding soma_def using assms(2) by (intro soma_precos_resolvidos) (simp add: itens_def)
  have tr: "(case py_truediv soma (int (length itens)) of Inl ex \<Rightarrow> Inl ex | Inr d \<Rightarrow> py_round d)
              = Inr (rne soma (int (length itens)))"
    using assms(3) n by (intro truediv_round) (simp_all add: soma_def itens_def)
  have "preco cat arg =
          Ok200 \<lparr>materiais = itens, preco_final = rne soma (int (length itens)),
                 categoria = classificar_categoria (map (\<lambda>p. norm_nome (Some p)) itens),
                 soma_precos_unitarios = soma, quantidade_materiais = length itens\<rparr>"
    using s ne
    by (simp add: preco_def py_or_empty Let_def it desconhecidos_de_filter f sp tr)
  moreover have "2 * \<bar>soma - int (length itens) * rne soma (int (length itens))\<bar> \<le> int (length itens)"
    using rne_nearest [OF n] .
  ultimately show ?thesis
    by (simp add: itens_def soma_def)
qed

theorem preco_media_witness:
  "preco catalogo_spec pedido_spec =
     Ok200 \<lparr>materiais = [''Couro Bovino'', ''Couro de Til'' @ [CHR 0xE1] @ ''pia'', ''Jeans''],
            preco_final = 60, categoria = ''Casual Urbano'',
            soma_precos_unitarios = 180, quantidade_materiais = 3\<rparr>"
proof -
  have q: "query_itens pedido_spec = [''Couro Bovino'', ''Couro de Til'' @ [CHR 0xE1] @ ''pia'', ''Jeans'']"
    by code_simp
  have h1: "query_itens pedido_spec \<noteq> []"
    by (simp add: q)
  have h2: "\<forall>p\<in>set (query_itens pedido_spec). map_of catalogo_spec (norm_nome (Some p)) \<noteq> None"
    by code_simp
  have s: "sum_list (map (preco_unitario catalogo_spec) (query_itens pedido_spec)) = 180"
    by code_simp
  have h3: "\<bar>sum_list (map (preco_unitario catalogo_spec) (query_itens pedido_spec))\<bar> < 2 ^ 52"
    by (simp add: s)
  have k: "map (\<lambda>p. norm_nome (Some p)) (query_itens pedido_spec)
             = [''couro bovino'', ''couro tilapia'', ''jeans'']"
    by code_simp
  have c: "classificar_categoria [''couro bovino'', ''couro tilapia'', ''jeans''] = ''Casual Urbano''"
    by (simp add: classificar_categoria_def PREMIUM_KEYS_eq)
  have r: "rne 180 3 = 60"
    by (simp add: rne_def)
  from preco_media [OF h1 h2 h3, unfolded s k] show ?thesis
    by (simp add: c r q)
qed

text \<open>
  C5 as stated fails for a large sum: a load stores the price \<open>2 ^ 53 + 1\<close> for \<open>jeans\<close>;
  asked for that one item, whose quotient by 1 is the price itself, the answer is
  \<open>2 ^ 53\<close>.
\<close>

theorem preco_media_counterexample:
  "CATALOGO (fst (carregar_catalogo url_exemplo rede_grande estado_inicial)) = catalogo_grande \<and>
   preco catalogo_grande (Some ''Jeans'') =
     Ok200 \<lparr>materiais = [''Jeans''], preco_final = 9007199254740992, categoria = ''Casual Urbano'',
            soma_precos_unitarios = 9007199254740993, quantidade_materiais = 1\<rparr>"
  by code_simp

section \<open>Checks of the floating point model\<close>

text \<open>
  Known values of \<^verbatim>\<open>float\<close>, of the division of two ints and of \<^verbatim>\<open>round\<close>, and the shape
  of every double that \<open>to_double\<close> returns: a mantissa of at most 53 bits and an exponent
  of at least \<open>-1074\<close>.
\<close>

lemma py_float_exemplos:
  "py_float ''0.1'' = Inr (Finite 7205759403792794 (- 56))"
  "py_float ''1e22'' = Inr (Finite 4768371582031250 21)"
  "py_float ''-2.5'' = Inr (Finite (- 5629499534213120) (- 51))"
  "py_float ''1e309'' = Inr Infinite"
  "py_float '' 1_000.5 '' = Inr (Finite 8800491068719104 (- 43))"
  "py_float ''1__0'' = Inl ValueError"
  "py_float ''NaN'' = Inr NotANumber"
  "py_float ''1e'' = Inl ValueError"
  by code_simp+

lemma py_truediv_exemplos:
  "py_truediv 1 3 = Inr (Finite 6004799503160661 (- 54))"
  "py_truediv 5 2 = Inr (Finite 5629499534213120 (- 51))"
  "py_round (Finite 5629499534213120 (- 51)) = Inr 2"
  "py_round (Finite 7881299347898368 (- 51)) = Inr 4"
  by code_simp+

lemma flog2_upper:
  assumes "0 < p" "0 < q"
  shows "p * 2 ^ nat (- (flog2 p q + 1)) < q * 2 ^ nat (flog2 p q + 1)"
proof -
  define bp where "bp = bitlen p"
  define bq where "bq = bitlen q"
  define d where "d = int bp - int bq"
  have p1: "p < 2 ^ bp" and p2: "2 ^ bp \<le> 2 * p"
    using bitlen_bounds [OF assms(1)] by (simp_all add: bp_def)
  have q1: "q < 2 ^ bq" and q2: "2 ^ bq \<le> 2 * q"
    using bitlen_bounds [OF assms(2)] by (simp_all add: bq_def)
  show ?thesis
  proof (cases "q * 2 ^ nat d \<le> p * 2 ^ nat (- d)")
    case False
    then have f: "flog2 p q + 1 = d"
      by (simp add: flog2_def Let_def d_def bp_def bq_def)
    from False show ?thesis
      unfolding f by simp
  next
    case True
    then have f: "flog2 p q = d"
      by (simp add: flog2_def Let_def d_def bp_def bq_def)
    show ?thesis
    proof (cases "0 \<le> d")
      case True
      define j where "j = bp - bq"
      from True have j: "bp = bq + j"
        unfolding d_def j_def by linarith
      have n1: "nat (d + 1) = Suc j" "nat (- (d + 1)) = 0" "nat (- d - 1) = 0"
        by (simp_all add: d_def j)
      have "p < 2 ^ bq * 2 ^ j"
        using p1 by (simp add: j power_add)
      also have "\<dots> \<le> (2 * q) * 2 ^ j"
        using q2 by (intro mult_right_mono) simp_all
      finally show ?thesis
        by (simp add: f n1)
    next
      case False
      define j where "j = bq - Suc bp"
      from False have j: "bq = Suc (bp + j)"
        unfolding d_def j_def by linarith
      have n1: "nat (d + 1) = 0" "nat (- (d + 1)) = j" "nat (- d - 1) = j"
        by (simp_all add: d_def j)
      have "p * 2 ^ j < 2 ^ bp * 2 ^ j"
        using p1 by (intro mult_strict_right_mono) simp_all
      also have "\<dots> = 2 ^ (bp + j)" by (simp add: power_add)
      also have "\<dots> \<le> q" using q2 by (simp add: j)
      finally show ?thesis
        by (simp add: f n1)
    qed
  qed
qed

lemma scale_shift:
  fixes p q :: int and A B C D :: nat
  assumes "p * 2 ^ A < q * 2 ^ B" and "B + C \<le> D + A + j" and that: "0 < q"
  shows "p * 2 ^ C < 2 ^ j * (q * 2 ^ D)"
proof -
  have "p * 2 ^ A * 2 ^ C < q * 2 ^ B * 2 ^ C"
    using assms(1) by (intro mult_strict_right_mono) simp_all
  also have "\<dots> = q * 2 ^ (B + C)"
    by (simp add: power_add)
  also have "\<dots> \<le> q * 2 ^ (D + A + j)"
    using that assms(2) by (intro mult_left_mono power_increasing) simp_all
  finally have "(p * 2 ^ C) * 2 ^ A < (2 ^ j * (q * 2 ^ D)) * 2 ^ A"
    by (simp add: power_add algebra_simps)
  then show ?thesis
    by (simp only: mult_less_cancel_right_pos zero_less_power zero_less_numeral)
qed

lemma to_double_mantissa:
  assumes "0 < p" "0 < q" "to_double p q = Some (m, e)"
  shows "0 \<le> m \<and> m \<le> 2 ^ 53 \<and> - 1074 \<le> e"
proof -
  define f where "f = flog2 p q"
  have e: "e = max (f - 52) (- 1074)" and m: "m = rne (p * 2 ^ nat (- e)) (q * 2 ^ nat e)"
    using assms(1,3) by (auto simp: to_double_def Let_def f_def split: if_splits)
  have up: "p * 2 ^ nat (- (f + 1)) < q * 2 ^ nat (f + 1)"
    using flog2_upper [OF assms(1,2)] by (simp add: f_def)
  have "nat (f + 1) + nat (- e) \<le> nat e + nat (- (f + 1)) + 53"
    unfolding e by linarith
  from scale_shift [OF up this assms(2)]
  have lt: "p * 2 ^ nat (- e) < 2 ^ 53 * (q * 2 ^ nat e)" .
  define X where "X = p * 2 ^ nat (- e)"
  define Y where "Y = q * 2 ^ nat e"
  have Y: "0 < Y" using assms(2) by (simp add: Y_def)
  have X: "0 \<le> X" using assms(1) by (simp add: X_def)
  have "2 * (Y * m) \<le> 2 * X + Y"
    using rne_bounds(2) [OF Y, of X] by (simp add: m X_def Y_def)
  also have "\<dots> < 2 * (2 ^ 53 * Y) + Y"
    using lt by (simp add: X_def Y_def)
  finally have "Y * (2 * m) < Y * (2 * 2 ^ 53 + 1)"
    by (simp add: algebra_simps)
  then have "2 * m < 2 * 2 ^ 53 + 1"
    using Y by (simp only: mult_less_cancel_left_pos)
  then have "m \<le> 2 ^ 53" by simp
  moreover have "0 \<le> m"
    unfolding m X_def [symmetric] Y_def [symmetric] using X Y by (rule rne_nonneg)
  ultimately show ?thesis
    by (simp add: e)
qed

end
